theory Spec2Isabelle
  imports Main "HOL-Library.AList"
begin

section \<open>Property snapshots and layer diffs (src/entity/diff.ts)\<close>

text \<open>
  A property snapshot is a Lua table from property names to values. It is modelled as an
  association list with one entry per key, in the order \<open>pairs\<close> visits it; \<open>map_of\<close> reads
  a key, \<open>AList.update\<close> assigns it and \<open>AList.delete\<close> removes it.  The value type \<open>'v\<close>
  stands for Lua values compared structurally, so that \<open>deepCompare\<close> of lib/util.ts is
  equality on \<open>'v option\<close> (\<open>None\<close> is \<open>nil\<close>).

  A diff maps a property either to a new value or to the sentinel \<open>nilPlaceholder\<close>, a
  table of its own that no property value is identical to.
\<close>

type_synonym 'v Entity = "(string \<times> 'v) list"

datatype 'v diff_value = NilPlaceholder | Value 'v

type_synonym 'v LayerDiff = "(string \<times> 'v diff_value) list"

datatype error = AssertionFailed

definition ignoredProps :: "string set" where
  "ignoredProps = {''position'', ''direction''}"

definition deepCompare :: "'v option \<Rightarrow> 'v option \<Rightarrow> bool" where
  "deepCompare a b = (a = b)"

definition nilIfEmpty :: "'a list \<Rightarrow> 'a list option" where
  "nilIfEmpty obj = (if obj = [] then None else Some obj)"

text \<open>The first loop of \<open>getEntityDiff\<close>: over the entries of \<open>above\<close>.\<close>

fun diffChanged :: "'v Entity \<Rightarrow> 'v Entity \<Rightarrow> 'v LayerDiff \<Rightarrow> 'v LayerDiff" where
  "diffChanged belowE [] changes = changes"
| "diffChanged belowE ((key, value) # rest) changes =
     diffChanged belowE rest
       (if key \<notin> ignoredProps \<and> \<not> deepCompare (Some value) (map_of belowE key)
        then AList.update key (Value value) changes else changes)"

text \<open>The second loop of \<open>getEntityDiff\<close>: over the entries of \<open>below\<close>.\<close>

fun diffRemoved :: "'v Entity \<Rightarrow> 'v Entity \<Rightarrow> 'v LayerDiff \<Rightarrow> 'v LayerDiff" where
  "diffRemoved aboveE [] changes = changes"
| "diffRemoved aboveE ((key, value) # rest) changes =
     diffRemoved aboveE rest
       (if key \<notin> ignoredProps \<and> map_of aboveE key = None
        then AList.update key NilPlaceholder changes else changes)"

definition getEntityDiff :: "'v Entity \<Rightarrow> 'v Entity \<Rightarrow> 'v LayerDiff option" where
  "getEntityDiff belowE aboveE =
     nilIfEmpty (diffRemoved aboveE belowE (diffChanged belowE aboveE []))"

fun applyDiffToDiff :: "'v LayerDiff \<Rightarrow> 'v LayerDiff \<Rightarrow> 'v LayerDiff" where
  "applyDiffToDiff existing [] = existing"
| "applyDiffToDiff existing ((key, value) # rest) =
     applyDiffToDiff (AList.update key value existing) rest"

fun applyDiffToEntity :: "'v Entity \<Rightarrow> 'v LayerDiff \<Rightarrow> 'v Entity" where
  "applyDiffToEntity entity [] = entity"
| "applyDiffToEntity entity ((key, value) # rest) =
     applyDiffToEntity
       (case value of
          NilPlaceholder \<Rightarrow> AList.delete key entity
        | Value v \<Rightarrow> AList.update key v entity)
       rest"

section \<open>The versioned value store of an entity (class AssemblyEntityImpl)\<close>

text \<open>
  \<open>layerChanges\<close> is a table keyed by layer number, listed in the order in which \<open>pairs\<close>
  visits it.  \<open>getValueAtLayer\<close> leaves its loop at the first key above the requested
  layer, so the order of the visit is part of the model: the game's Lua runtime visits
  small positive integer keys in ascending order, which is the hypothesis
  \<open>sorted (map fst (layerChanges e))\<close> of the theorems below, and a new key is entered at
  its place in that order (\<open>insort_key\<close>).  The fields that hold the rendered instances
  and the category name play no part in the value store and are left out.
\<close>

type_synonym LayerNumber = nat

type_synonym Position = "int \<times> int"

record 'v AssemblyEntity =
  ae_position :: Position
  ae_direction :: "nat option"
  baseLayer :: LayerNumber
  baseValue :: "'v Entity"
  layerChanges :: "(LayerNumber \<times> 'v LayerDiff) list"

definition createAssemblyEntity ::
  "'v Entity \<Rightarrow> Position \<Rightarrow> nat option \<Rightarrow> LayerNumber \<Rightarrow> 'v AssemblyEntity" where
  "createAssemblyEntity entity pos dir layerNumber =
     \<lparr> ae_position = pos,
       ae_direction = (if dir = Some 0 then None else dir),
       baseLayer = layerNumber,
       baseValue = entity,
       layerChanges = [] \<rparr>"

definition applyDiffAtLayer ::
  "'v AssemblyEntity \<Rightarrow> LayerNumber \<Rightarrow> 'v LayerDiff \<Rightarrow> error + 'v AssemblyEntity" where
  "applyDiffAtLayer e layer diff =
     (if \<not> layer \<ge> baseLayer e then Inl AssertionFailed
      else if layer = baseLayer e
        then Inr (e\<lparr>baseValue := applyDiffToEntity (baseValue e) diff\<rparr>)
      else (case map_of (layerChanges e) layer of
              Some existingDiff \<Rightarrow>
                Inr (e\<lparr>layerChanges :=
                        AList.update layer (applyDiffToDiff existingDiff diff) (layerChanges e)\<rparr>)
            | None \<Rightarrow>
                Inr (e\<lparr>layerChanges := insort_key fst (layer, diff) (layerChanges e)\<rparr>)))"

text \<open>The loop of \<open>getValueAtLayer\<close>, with its \<open>break\<close>.\<close>

fun applyLayerChanges ::
  "LayerNumber \<Rightarrow> 'v Entity \<Rightarrow> (LayerNumber \<times> 'v LayerDiff) list \<Rightarrow> 'v Entity" where
  "applyLayerChanges layer value [] = value"
| "applyLayerChanges layer value ((changedLayer, diff) # rest) =
     (if changedLayer > layer then value
      else applyLayerChanges layer (applyDiffToEntity value diff) rest)"

definition getValueAtLayer :: "'v AssemblyEntity \<Rightarrow> LayerNumber \<Rightarrow> error + 'v Entity option" where
  "getValueAtLayer e layer =
     (if \<not> layer \<ge> 1 then Inl AssertionFailed
      else if layer < baseLayer e then Inr None
      else Inr (Some (applyLayerChanges layer (baseValue e) (layerChanges e))))"

section \<open>Entities of the project and the heap\<close>

text \<open>
  Entities are mutable Lua objects that the content store, the connection graphs and
  the update functions share by reference.  An object is named by its \<open>entity_id\<close>; the
  heap gives the current fields of every object.  The record has the fields that the
  functions under src/ read or assign.
\<close>

type_synonym entity_id = nat

type_synonym StageNumber = nat

record LuaEntity =
  le_name :: string
  le_type :: string
  le_position :: Position
  le_direction :: nat
  belt_to_ground_type :: string
  loader_type :: string
  le_pickup_position :: Position
  le_drop_position :: Position
  upgrade_target :: "string option"
  upgrade_direction :: "nat option"

record EntityValue =
  name :: string
  type_prop :: "string option"
  pickup_position :: "Position option"
  drop_position :: "Position option"

record ProjectEntity =
  position :: Position
  direction :: "nat option"
  firstStage :: StageNumber
  lastStage :: "StageNumber option"
  firstValue :: EntityValue
  stageDiffs :: "(StageNumber \<times> string LayerDiff) list"
  isSettingsRemnant :: bool
  worldEntities :: "StageNumber \<Rightarrow> LuaEntity option"

type_synonym heap = "entity_id \<Rightarrow> ProjectEntity"

section \<open>The content store (class AssemblyContentImpl, src/unnamed/part_005)\<close>

text \<open>
  A table that the code walks (\<open>for ... of\<close>, \<open>next\<close>, the \<open>_next\<close> links of a position
  bucket) is a list in the order of the walk: a \<open>LuaSet\<close> is a list without repetition, a
  \<open>LuaMap\<close> an association list.  A table that is only read and written by key is a map.
  A circuit connection is a table and a \<open>LuaSet\<close> holds it by reference: \<open>conn_ref\<close> is
  that reference.
\<close>

record AsmCircuitConnection =
  conn_ref :: nat
  fromEntity :: entity_id
  fromId :: nat
  toEntity :: entity_id
  toId :: nat
  wire :: nat

text \<open>
  A cable connection point is an entity, or one connector of a power switch
  (\<open>{entity, connectionId}\<close>).
\<close>

datatype CableConnectionPoint =
  EntityPoint entity_id
| PowerSwitchConnectionPoint entity_id nat

fun getEntityOfConnectionPoint :: "CableConnectionPoint \<Rightarrow> entity_id" where
  "getEntityOfConnectionPoint (EntityPoint e) = e"
| "getEntityOfConnectionPoint (PowerSwitchConnectionPoint e connectionId) = e"

fun isPowerSwitchConnectionPoint :: "CableConnectionPoint \<Rightarrow> bool" where
  "isPowerSwitchConnectionPoint (EntityPoint e) = False"
| "isPowerSwitchConnectionPoint (PowerSwitchConnectionPoint e connectionId) = True"

fun connectionId :: "CableConnectionPoint \<Rightarrow> nat" where
  "connectionId (EntityPoint e) = 0"
| "connectionId (PowerSwitchConnectionPoint e cid) = cid"

datatype CableAddResult = Added | Error | AlreadyExists | MaxConnectionsReached

definition MaxCableConnections :: nat where
  "MaxCableConnections = 5"

type_synonym AsmEntityCircuitConnections = "(entity_id \<times> AsmCircuitConnection list) list"

type_synonym AsmEntityCableConnections = "CableConnectionPoint list"

record AssemblyContent =
  byPosition :: "Position \<Rightarrow> entity_id list"
  entities :: "entity_id set"
  circuitConnections :: "entity_id \<rightharpoonup> AsmEntityCircuitConnections"
  cableConnections :: "CableConnectionPoint \<rightharpoonup> AsmEntityCableConnections"
  extraCableConnectionPoints :: "entity_id \<rightharpoonup> (nat \<times> CableConnectionPoint) list"

definition luaset_add :: "'a \<Rightarrow> 'a list \<Rightarrow> 'a list" where
  "luaset_add x xs = (if x \<in> set xs then xs else xs @ [x])"

definition luaset_delete :: "'a \<Rightarrow> 'a list \<Rightarrow> 'a list" where
  "luaset_delete x xs = removeAll x xs"

definition isEmpty :: "'a list \<Rightarrow> bool" where
  "isEmpty obj = (obj = [])"

subsection \<open>findCompatibleByProps\<close>

text \<open>
  The loop over the bucket. \<open>nameToCategory\<close> is the prototype table that the store
  receives from \<open>OnEntityPrototypesLoaded\<close>; it is a parameter.
\<close>

fun findCandidate ::
  "heap \<Rightarrow> (string \<Rightarrow> string option) \<Rightarrow> string \<Rightarrow> string option \<Rightarrow> nat option \<Rightarrow>
   StageNumber \<Rightarrow> entity_id list \<Rightarrow> entity_id option \<Rightarrow> entity_id option" where
  "findCandidate h nameToCategory entityName category dir stage [] candidate = candidate"
| "findCandidate h nameToCategory entityName category dir stage (cur # next) candidate =
     findCandidate h nameToCategory entityName category dir stage next
       (if (dir = None \<or> dir = Some (case direction (h cur) of None \<Rightarrow> 0 | Some d \<Rightarrow> d)) \<and>
           (case lastStage (h cur) of None \<Rightarrow> True | Some l \<Rightarrow> l \<ge> stage) \<and>
           (name (firstValue (h cur)) = entityName \<or>
            (category \<noteq> None \<and> nameToCategory (name (firstValue (h cur))) = category)) \<and>
           (case candidate of None \<Rightarrow> True
                            | Some c \<Rightarrow> firstStage (h cur) < firstStage (h c))
        then Some cur else candidate)"

definition findCompatibleByProps ::
  "heap \<Rightarrow> (string \<Rightarrow> string option) \<Rightarrow> AssemblyContent \<Rightarrow> string \<Rightarrow> Position \<Rightarrow>
   nat option \<Rightarrow> StageNumber \<Rightarrow> entity_id option" where
  "findCompatibleByProps h nameToCategory content entityName pos dir stage =
     (let cur = byPosition content pos in
      if cur = [] then None
      else findCandidate h nameToCategory entityName (nameToCategory entityName) dir stage cur None)"

text \<open>
  The conditions of a candidate as the specification words them: still present at the
  stage, same name or same category, and the requested direction, if any.
\<close>

definition compatibleByProps ::
  "heap \<Rightarrow> (string \<Rightarrow> string option) \<Rightarrow> string \<Rightarrow> nat option \<Rightarrow> StageNumber \<Rightarrow> entity_id \<Rightarrow> bool"
  where
  "compatibleByProps h nameToCategory entityName dir stage e =
     ((lastStage (h e) = None \<or> (\<exists>l. lastStage (h e) = Some l \<and> l \<ge> stage)) \<and>
      (name (firstValue (h e)) = entityName \<or>
       (\<exists>c. nameToCategory entityName = Some c \<and> nameToCategory (name (firstValue (h e))) = Some c)) \<and>
      (dir = None \<or> (\<exists>d. dir = Some d \<and> d = (case direction (h e) of None \<Rightarrow> 0 | Some d' \<Rightarrow> d'))))"

subsection \<open>Circuit connections\<close>

text \<open>
  Modelled from the spec: \<open>circuitConnectionEquals\<close> of entity/circuit-connection.ts, which
  is not among the sources (its test is).  The specification calls it a
  symmetric-equality comparison: the endpoints may be recorded in either order.  The test
  has a connection equal to its copy and to its mirrored form, and different from a
  connection with other endpoints.
\<close>

definition circuitConnectionEquals :: "AsmCircuitConnection \<Rightarrow> AsmCircuitConnection \<Rightarrow> bool" where
  "circuitConnectionEquals a b =
     (a = b \<or>
      (wire a = wire b \<and>
       ((fromEntity a = fromEntity b \<and> fromId a = fromId b \<and>
         toEntity a = toEntity b \<and> toId a = toId b) \<or>
        (fromEntity a = toEntity b \<and> fromId a = toId b \<and>
         toEntity a = fromEntity b \<and> toId a = fromId b))))"

definition getCircuitConnections ::
  "AssemblyContent \<Rightarrow> entity_id \<Rightarrow> AsmEntityCircuitConnections option" where
  "getCircuitConnections content entity = circuitConnections content entity"

text \<open>
  \<open>fromConnections\<close> and \<open>toConnections\<close> are one table when both endpoints are the same
  entity; the model writes the aliasing out.
\<close>

definition addCircuitConnection ::
  "AssemblyContent \<Rightarrow> AsmCircuitConnection \<Rightarrow> bool \<times> AssemblyContent" where
  "addCircuitConnection content circuitConnection =
     (let fromE = fromEntity circuitConnection; toE = toEntity circuitConnection;
          cc = circuitConnections content
      in
      if fromE \<notin> entities content \<or> toE \<notin> entities content then (False, content)
      else if (case cc fromE of
                 None \<Rightarrow> False
               | Some fromConnections \<Rightarrow>
                   (case map_of fromConnections toE of
                      None \<Rightarrow> False
                    | Some fromSet \<Rightarrow>
                        (\<exists>otherConnection \<in> set fromSet.
                            circuitConnectionEquals circuitConnection otherConnection)))
        then (False, content)
      else
        let fromConnections = (case cc fromE of None \<Rightarrow> [] | Some m \<Rightarrow> m);
            cc1 = cc(fromE \<mapsto> fromConnections);
            toConnections = (case cc1 toE of None \<Rightarrow> [] | Some m \<Rightarrow> m);
            cc2 = cc1(toE \<mapsto> toConnections);
            fromSet = map_of fromConnections toE;
            toSet = map_of toConnections fromE;
            fromConnections' =
              AList.update toE
                (case fromSet of None \<Rightarrow> [circuitConnection]
                               | Some s \<Rightarrow> luaset_add circuitConnection s)
                fromConnections;
            cc3 = cc2(fromE \<mapsto> fromConnections');
            toConnections' =
              AList.update fromE
                (case toSet of None \<Rightarrow> [circuitConnection]
                             | Some s \<Rightarrow> luaset_add circuitConnection s)
                (if toE = fromE then fromConnections' else toConnections);
            cc4 = cc3(toE \<mapsto> toConnections')
        in (True, content\<lparr>circuitConnections := cc4\<rparr>))"

definition removeCircuitConnection ::
  "AssemblyContent \<Rightarrow> AsmCircuitConnection \<Rightarrow> AssemblyContent" where
  "removeCircuitConnection content circuitConnection =
     (let fromE = fromEntity circuitConnection; toE = toEntity circuitConnection;
          cc = circuitConnections content
      in
      case (cc fromE, cc toE) of
        (Some fromConnections, Some toConnections) \<Rightarrow>
          let (fromConnections', cc1) =
                (case map_of fromConnections toE of
                   None \<Rightarrow> (fromConnections, cc)
                 | Some fromSet \<Rightarrow>
                     let fromSet' = luaset_delete circuitConnection fromSet in
                     if isEmpty fromSet' then
                       let m = AList.delete toE fromConnections in
                       (m, if isEmpty m then cc(fromE := None) else cc(fromE \<mapsto> m))
                     else
                       let m = AList.update toE fromSet' fromConnections in
                       (m, cc(fromE \<mapsto> m)));
              toConnections1 = (if toE = fromE then fromConnections' else toConnections);
              cc2 =
                (case map_of toConnections1 fromE of
                   None \<Rightarrow> cc1
                 | Some toSet \<Rightarrow>
                     let toSet' = luaset_delete circuitConnection toSet in
                     if isEmpty toSet' then
                       let m = AList.delete fromE toConnections1 in
                       if isEmpty m then cc1(toE := None) else cc1(toE \<mapsto> m)
                     else cc1(toE \<mapsto> AList.update fromE toSet' toConnections1))
          in content\<lparr>circuitConnections := cc2\<rparr>
      | _ \<Rightarrow> content)"

subsection \<open>Example data\<close>

text \<open>An entity with the given name, position, direction and stage range, and nothing else.\<close>

definition exampleEntity ::
  "string \<Rightarrow> Position \<Rightarrow> nat option \<Rightarrow> StageNumber \<Rightarrow> StageNumber option \<Rightarrow> ProjectEntity" where
  "exampleEntity entityName pos dir firstS lastS =
     \<lparr> position = pos, direction = dir, firstStage = firstS, lastStage = lastS,
       firstValue = \<lparr> name = entityName, type_prop = None,
                      pickup_position = None, drop_position = None \<rparr>,
       stageDiffs = [], isSettingsRemnant = False, worldEntities = (\<lambda>stage. None) \<rparr>"

text \<open>
  Three entities at one position: 1 is a belt from stage 3 on, 2 a fast belt at stages 1
  to 2, 3 a fast belt from stage 2 on.  Both names are of the category \<open>belt\<close>.
\<close>

definition exampleHeap :: heap where
  "exampleHeap i =
     (if i = 1 then exampleEntity ''transport-belt'' (0, 0) None 3 None
      else if i = 2 then exampleEntity ''fast-transport-belt'' (0, 0) None 1 (Some 2)
      else exampleEntity ''fast-transport-belt'' (0, 0) None 2 None)"

definition exampleCategory :: "string \<Rightarrow> string option" where
  "exampleCategory n =
     (if n = ''transport-belt'' \<or> n = ''fast-transport-belt'' then Some ''belt'' else None)"

definition exampleContent :: AssemblyContent where
  "exampleContent =
     \<lparr> byPosition = (\<lambda>p. if p = (0, 0) then [1, 2, 3] else []),
       entities = {1, 2, 3},
       circuitConnections = Map.empty,
       cableConnections = Map.empty,
       extraCableConnectionPoints = Map.empty \<rparr>"

subsection \<open>Well-formed circuit index\<close>

text \<open>
  What \<open>_assertCorrect\<close> asserts of the circuit index (every recorded connection is also
  recorded under the swapped pair of entities), together with the fact that
  \<open>removeCircuitConnection\<close> and \<open>removeAllConnections\<close> never leave an empty table behind.
\<close>

definition circuitIndexOk :: "AssemblyContent \<Rightarrow> bool" where
  "circuitIndexOk content =
     (\<forall>e m. circuitConnections content e = Some m \<longrightarrow>
        m \<noteq> [] \<and>
        (\<forall>other S. map_of m other = Some S \<longrightarrow>
           S \<noteq> [] \<and>
           (\<forall>c \<in> set S. \<exists>m' S'. circuitConnections content other = Some m' \<and>
                              map_of m' e = Some S' \<and> c \<in> set S')))"

text \<open>A green wire from entity 1 to entity 2, and the example store with it recorded.\<close>

definition exampleConnection :: AsmCircuitConnection where
  "exampleConnection =
     \<lparr> conn_ref = 0, fromEntity = 1, fromId = 1, toEntity = 2, toId = 1, wire = 3 \<rparr>"

definition exampleContentConnected :: AssemblyContent where
  "exampleContentConnected =
     exampleContent\<lparr>circuitConnections :=
        [1 \<mapsto> [(2, [exampleConnection])], 2 \<mapsto> [(1, [exampleConnection])]]\<rparr>"

subsection \<open>Cable connections\<close>

text \<open>
  \<open>getConnectionPointKey\<close> has two overloads. Without \<open>createIfAbsent\<close> it only looks the
  key up; with it, a missing key is registered.  An entity is its own key.  The optional
  table \<open>extraCableConnectionPoints\<close> is a map: absent and empty read the same.
\<close>

definition getConnectionPointKey ::
  "AssemblyContent \<Rightarrow> CableConnectionPoint \<Rightarrow> CableConnectionPoint option" where
  "getConnectionPointKey content point =
     (if \<not> isPowerSwitchConnectionPoint point then Some point
      else (case extraCableConnectionPoints content (getEntityOfConnectionPoint point) of
              None \<Rightarrow> None
            | Some thisEntity \<Rightarrow> map_of thisEntity (connectionId point)))"

definition getConnectionPointKeyCreate ::
  "AssemblyContent \<Rightarrow> CableConnectionPoint \<Rightarrow> CableConnectionPoint \<times> AssemblyContent" where
  "getConnectionPointKeyCreate content point =
     (if \<not> isPowerSwitchConnectionPoint point then (point, content)
      else
        let m = extraCableConnectionPoints content;
            thisEntity = (case m (getEntityOfConnectionPoint point) of None \<Rightarrow> [] | Some t \<Rightarrow> t)
        in (case map_of thisEntity (connectionId point) of
              Some existing \<Rightarrow> (existing, content)
            | None \<Rightarrow>
                (point,
                 content\<lparr>extraCableConnectionPoints :=
                    m(getEntityOfConnectionPoint point \<mapsto>
                        AList.update (connectionId point) point thisEntity)\<rparr>)))"

definition getCableConnections ::
  "AssemblyContent \<Rightarrow> CableConnectionPoint \<Rightarrow> AsmEntityCableConnections option" where
  "getCableConnections content entity =
     (case getConnectionPointKey content entity of
        None \<Rightarrow> None
      | Some key \<Rightarrow> cableConnections content key)"

definition removeCableConnection ::
  "AssemblyContent \<Rightarrow> CableConnectionPoint \<Rightarrow> CableConnectionPoint \<Rightarrow> AssemblyContent" where
  "removeCableConnection content point1 point2 =
     (let entity1 = getEntityOfConnectionPoint point1;
          entity2 = getEntityOfConnectionPoint point2
      in
      if entity1 = entity2 \<or> entity1 \<notin> entities content \<or> entity2 \<notin> entities content
        then content
      else
        (case (getConnectionPointKey content point1, getConnectionPointKey content point2) of
           (Some key1, Some key2) \<Rightarrow>
             let cable = cableConnections content;
                 cable1 =
                   (case cable key1 of
                      None \<Rightarrow> cable
                    | Some data1 \<Rightarrow>
                        let data1' = luaset_delete key2 data1 in
                        if isEmpty data1' then cable(key1 := None) else cable(key1 \<mapsto> data1'));
                 cable2 =
                   (case cable1 key2 of
                      None \<Rightarrow> cable1
                    | Some data2 \<Rightarrow>
                        let data2' = luaset_delete key1 data2 in
                        if isEmpty data2' then cable1(key2 := None) else cable1(key2 \<mapsto> data2'))
             in content\<lparr>cableConnections := cable2\<rparr>
         | _ \<Rightarrow> content))"

text \<open>
  The block \<open>if (data && isPowerSwitchConnectionPoint(point)) { ... }\<close> that
  \<open>addCableConnection\<close> runs once for each endpoint.  \<open>next(data)[0]\<close> is the first key
  of the set; on an empty set it is \<open>nil\<close>, and the call that receives it raises.
\<close>

datatype lua_error = IndexNil

definition replacePowerSwitchConnection ::
  "AssemblyContent \<Rightarrow> CableConnectionPoint \<Rightarrow> CableConnectionPoint \<Rightarrow>
   lua_error + AssemblyContent" where
  "replacePowerSwitchConnection content point key =
     (case cableConnections content key of
        None \<Rightarrow> Inr content
      | Some data \<Rightarrow>
          if isPowerSwitchConnectionPoint point then
            (case data of
               [] \<Rightarrow> Inl IndexNil
             | first # rest \<Rightarrow> Inr (removeCableConnection content first key))
          else Inr content)"

definition addCableConnection ::
  "AssemblyContent \<Rightarrow> CableConnectionPoint \<Rightarrow> CableConnectionPoint \<Rightarrow>
   lua_error + CableAddResult \<times> AssemblyContent" where
  "addCableConnection content point1 point2 =
     (let entity1 = getEntityOfConnectionPoint point1;
          entity2 = getEntityOfConnectionPoint point2
      in
      if entity1 = entity2 then Inr (Error, content)
      else if entity1 \<notin> entities content \<or> entity2 \<notin> entities content then Inr (Error, content)
      else
        let (key1, content1) = getConnectionPointKeyCreate content point1;
            (key2, content2) = getConnectionPointKeyCreate content1 point2;
            data1 = cableConnections content2 key1;
            data2 = cableConnections content2 key2
        in
        if (case data1 of None \<Rightarrow> False | Some d \<Rightarrow> key2 \<in> set d)
          then Inr (AlreadyExists, content2)
        else if (case data1 of None \<Rightarrow> False | Some d \<Rightarrow> length d \<ge> MaxCableConnections)
          then Inr (MaxConnectionsReached, content2)
        else if (case data2 of None \<Rightarrow> False | Some d \<Rightarrow> key1 \<in> set d)
          then Inr (AlreadyExists, content2)
        else if (case data2 of None \<Rightarrow> False | Some d \<Rightarrow> length d \<ge> MaxCableConnections)
          then Inr (MaxConnectionsReached, content2)
        else
          (case replacePowerSwitchConnection content2 point1 key1 of
             Inl err \<Rightarrow> Inl err
           | Inr content3 \<Rightarrow>
               (case replacePowerSwitchConnection content3 point2 key2 of
                  Inl err \<Rightarrow> Inl err
                | Inr content4 \<Rightarrow>
                    let data1' = cableConnections content3 key1;
                        data2' = cableConnections content4 key2;
                        cable5 =
                          (cableConnections content4)
                            (key1 \<mapsto> (case data1' of None \<Rightarrow> [key2]
                                                    | Some d \<Rightarrow> luaset_add key2 d));
                        cable6 =
                          cable5
                            (key2 \<mapsto> (case data2' of None \<Rightarrow> [key1]
                                                    | Some d \<Rightarrow> luaset_add key1 d))
                    in Inr (Added, content4\<lparr>cableConnections := cable6\<rparr>))))"

text \<open>
  The key that stands for a point in the cable graph, the number of cable connections
  recorded for a key (\<open>table_size\<close>) and whether two keys are recorded as connected.
\<close>

definition connectionPointKeyOf :: "AssemblyContent \<Rightarrow> CableConnectionPoint \<Rightarrow> CableConnectionPoint"
  where
  "connectionPointKeyOf content point = fst (getConnectionPointKeyCreate content point)"

definition cableDegree :: "AssemblyContent \<Rightarrow> CableConnectionPoint \<Rightarrow> nat" where
  "cableDegree content key =
     (case cableConnections content key of None \<Rightarrow> 0 | Some d \<Rightarrow> length d)"

definition cableLinked :: "AssemblyContent \<Rightarrow> CableConnectionPoint \<Rightarrow> CableConnectionPoint \<Rightarrow> bool"
  where
  "cableLinked content key1 key2 =
     ((case cableConnections content key1 of None \<Rightarrow> False | Some d \<Rightarrow> key2 \<in> set d) \<or>
      (case cableConnections content key2 of None \<Rightarrow> False | Some d \<Rightarrow> key1 \<in> set d))"

text \<open>
  A pole (entity 1) with five cables, to the entities 2 to 6; entity 7 has none.
\<close>

definition exampleCableContent :: AssemblyContent where
  "exampleCableContent =
     \<lparr> byPosition = (\<lambda>p. []),
       entities = {1, 2, 3, 4, 5, 6, 7},
       circuitConnections = Map.empty,
       cableConnections =
         [EntityPoint 1 \<mapsto> [EntityPoint 2, EntityPoint 3, EntityPoint 4, EntityPoint 5, EntityPoint 6],
          EntityPoint 2 \<mapsto> [EntityPoint 1], EntityPoint 3 \<mapsto> [EntityPoint 1],
          EntityPoint 4 \<mapsto> [EntityPoint 1], EntityPoint 5 \<mapsto> [EntityPoint 1],
          EntityPoint 6 \<mapsto> [EntityPoint 1]],
       extraCableConnectionPoints = Map.empty \<rparr>"

subsection \<open>Deleting an entity\<close>

text \<open>
  \<open>removeAllConnections\<close> serves both graphs: the data of a key is a \<open>LuaMap\<close> from the
  other entity to the connections in the circuit graph (\<open>keysOf = map fst\<close>, \<open>del =
  AList.delete\<close>) and a \<open>LuaSet\<close> of the other points in the cable graph (\<open>keysOf\<close> is the
  identity, \<open>del = luaset_delete\<close>).  \<open>removeFromOthers\<close> is its loop.
\<close>

fun removeFromOthers ::
  "('k \<Rightarrow> 'x list \<Rightarrow> 'x list) \<Rightarrow> 'k \<Rightarrow> 'k list \<Rightarrow> ('k \<rightharpoonup> 'x list) \<Rightarrow> ('k \<rightharpoonup> 'x list)" where
  "removeFromOthers del key [] m = m"
| "removeFromOthers del key (otherKey # rest) m =
     removeFromOthers del key rest
       (case m otherKey of
          None \<Rightarrow> m
        | Some otherData \<Rightarrow>
            let otherData' = del key otherData in
            if isEmpty otherData' then m(otherKey := None) else m(otherKey \<mapsto> otherData'))"

definition removeAllConnections ::
  "('x list \<Rightarrow> 'k list) \<Rightarrow> ('k \<Rightarrow> 'x list \<Rightarrow> 'x list) \<Rightarrow> 'k \<Rightarrow> ('k \<rightharpoonup> 'x list) \<Rightarrow>
   ('k \<rightharpoonup> 'x list)" where
  "removeAllConnections keysOf del key m =
     (case m key of
        None \<Rightarrow> m
      | Some entityData \<Rightarrow> removeFromOthers del key (keysOf entityData) (m(key := None)))"

text \<open>
  Modelled from the spec: \<open>Map2D.delete\<close> of entity/map2d.ts, which is not among the
  sources.  A bucket is the list of the entities at one exact position; deleting takes
  the entity out of the bucket of its position.
\<close>

definition map2d_delete ::
  "(Position \<Rightarrow> entity_id list) \<Rightarrow> Position \<Rightarrow> entity_id \<Rightarrow> (Position \<Rightarrow> entity_id list)" where
  "map2d_delete m pos entity = m(pos := removeAll entity (m pos))"

definition delete :: "heap \<Rightarrow> AssemblyContent \<Rightarrow> entity_id \<Rightarrow> AssemblyContent" where
  "delete h content entity =
     (if entity \<notin> entities content then content
      else
        let content1 = content\<lparr>entities := entities content - {entity}\<rparr>;
            content2 = content1\<lparr>byPosition :=
                         map2d_delete (byPosition content1) (position (h entity)) entity\<rparr>;
            content3 = content2\<lparr>circuitConnections :=
                         removeAllConnections (map fst) AList.delete entity
                           (circuitConnections content2)\<rparr>;
            content4 = content3\<lparr>cableConnections :=
                         removeAllConnections (\<lambda>d. d) luaset_delete (EntityPoint entity)
                           (cableConnections content3)\<rparr>
        in (case extraCableConnectionPoints content4 entity of
              None \<Rightarrow> content4
            | Some extraPoints \<Rightarrow>
                content4\<lparr>cableConnections :=
                            fold (\<lambda>(cid, point) cable.
                                    removeAllConnections (\<lambda>d. d) luaset_delete point cable)
                              extraPoints (cableConnections content4),
                         extraCableConnectionPoints :=
                            (extraCableConnectionPoints content4)(entity := None)\<rparr>))"

text \<open>The assertions of \<open>_assertCorrect\<close>, in its order.\<close>

definition assertCorrect :: "AssemblyContent \<Rightarrow> bool" where
  "assertCorrect content =
     ((\<forall>entity points. circuitConnections content entity = Some points \<longrightarrow>
         entity \<in> entities content \<and>
         (\<forall>(otherEntity, connections) \<in> set points.
            otherEntity \<in> entities content \<and>
            (\<forall>connection \<in> set connections.
               \<exists>m S. circuitConnections content otherEntity = Some m \<and>
                     map_of m entity = Some S \<and> connection \<in> set S))) \<and>
      (\<forall>point connections. cableConnections content point = Some connections \<longrightarrow>
         (isPowerSwitchConnectionPoint point \<longrightarrow> getConnectionPointKey content point \<noteq> None) \<and>
         getEntityOfConnectionPoint point \<in> entities content \<and>
         (\<forall>otherPoint \<in> set connections.
            (isPowerSwitchConnectionPoint otherPoint \<longrightarrow>
               getConnectionPointKey content otherPoint \<noteq> None) \<and>
            getEntityOfConnectionPoint otherPoint \<in> entities content \<and>
            (\<exists>d. cableConnections content otherPoint = Some d \<and> point \<in> set d))) \<and>
      (\<forall>entity points. extraCableConnectionPoints content entity = Some points \<longrightarrow>
         entity \<in> entities content \<and>
         (\<forall>(cid, point) \<in> set points.
            isPowerSwitchConnectionPoint point \<and>
            getConnectionPointKey content point \<noteq> None \<and>
            connectionId point = cid)))"

text \<open>
  Three facts about the representation that the operations of the store keep and that
  \<open>_assertCorrect\<close> does not test: no empty set of connections is kept in the circuit
  index, a connection is recorded under its own two endpoints, and a registered key is
  a connector of the entity it is registered under.
\<close>

definition representationOk :: "AssemblyContent \<Rightarrow> bool" where
  "representationOk content =
     ((\<forall>entity points otherEntity connections.
         circuitConnections content entity = Some points \<and>
         (otherEntity, connections) \<in> set points \<longrightarrow>
         connections \<noteq> [] \<and>
         (\<forall>c \<in> set connections.
            (fromEntity c = entity \<and> toEntity c = otherEntity) \<or>
            (fromEntity c = otherEntity \<and> toEntity c = entity))) \<and>
      (\<forall>entity points cid point.
         extraCableConnectionPoints content entity = Some points \<and> (cid, point) \<in> set points \<longrightarrow>
         getEntityOfConnectionPoint point = entity))"

subsection \<open>Notions used in the proofs about the cable graph\<close>

text \<open>
  A graph is symmetric when every recorded neighbour records the key in turn; \<open>m'\<close>
  shrinks \<open>m\<close> when it records nothing that \<open>m\<close> does not; a key is absent when it has no
  data and no key records it.
\<close>

definition graphSym :: "('k \<rightharpoonup> 'k list) \<Rightarrow> bool" where
  "graphSym m = (\<forall>a b da. m a = Some da \<and> b \<in> set da \<longrightarrow> (\<exists>db. m b = Some db \<and> a \<in> set db))"

definition graphShrinks :: "('k \<rightharpoonup> 'k list) \<Rightarrow> ('k \<rightharpoonup> 'k list) \<Rightarrow> bool" where
  "graphShrinks m' m = (\<forall>k d'. m' k = Some d' \<longrightarrow> (\<exists>d. m k = Some d \<and> set d' \<subseteq> set d))"

definition graphAbsent :: "'k \<Rightarrow> ('k \<rightharpoonup> 'k list) \<Rightarrow> bool" where
  "graphAbsent key m = (m key = None \<and> (\<forall>k d. m k = Some d \<longrightarrow> key \<notin> set d))"

text \<open>No entry of the connection graphs or of the key registry refers to the entity.\<close>

definition noReferenceTo :: "entity_id \<Rightarrow> AssemblyContent \<Rightarrow> bool" where
  "noReferenceTo entity content =
     (circuitConnections content entity = None \<and>
      (\<forall>k points otherEntity connections.
          circuitConnections content k = Some points \<and> (otherEntity, connections) \<in> set points \<longrightarrow>
          otherEntity \<noteq> entity \<and>
          (\<forall>c \<in> set connections. fromEntity c \<noteq> entity \<and> toEntity c \<noteq> entity)) \<and>
      (\<forall>point connections.
          cableConnections content point = Some connections \<longrightarrow>
          getEntityOfConnectionPoint point \<noteq> entity \<and>
          (\<forall>otherPoint \<in> set connections. getEntityOfConnectionPoint otherPoint \<noteq> entity)) \<and>
      extraCableConnectionPoints content entity = None \<and>
      (\<forall>k points cid point.
          extraCableConnectionPoints content k = Some points \<and> (cid, point) \<in> set points \<longrightarrow>
          getEntityOfConnectionPoint point \<noteq> entity))"

text \<open>
  The entities 1 and 2 are poles joined by the example wire and by a cable; entity 3 is
  a power switch whose connector 0 is cabled to pole 1.
\<close>

definition exampleSwitchContent :: AssemblyContent where
  "exampleSwitchContent =
     \<lparr> byPosition = (\<lambda>p. if p = (0, 0) then [1, 2, 3] else []),
       entities = {1, 2, 3},
       circuitConnections =
         [1 \<mapsto> [(2, [exampleConnection])], 2 \<mapsto> [(1, [exampleConnection])]],
       cableConnections =
         [EntityPoint 1 \<mapsto> [EntityPoint 2, PowerSwitchConnectionPoint 3 0],
          EntityPoint 2 \<mapsto> [EntityPoint 1],
          PowerSwitchConnectionPoint 3 0 \<mapsto> [EntityPoint 1]],
       extraCableConnectionPoints = [3 \<mapsto> [(0, PowerSwitchConnectionPoint 3 0)]] \<rparr>"

section \<open>Compatibility lookup for an existing entity (src/unnamed/part_005)\<close>

text \<open>
  The class ProjectEntity, the prototype tables and the helpers of other modules are not
  among the sources.  The functions below take them as the fields of an environment:
  each field stands for the method or table of that name, applied to the current fields
  of the entity.  Nothing is assumed about them.
\<close>

datatype PasteCompatibleRotationType = AnyDirection | Flippable

record EntityIdentification =
  ei_name :: string
  ei_type :: string
  ei_position :: Position
  ei_direction :: nat
  ei_belt_to_ground_type :: "string option"
  ei_object_name :: "string option"

type_synonym BlueprintEntity = EntityValue

record env =
  nameToType :: "string \<Rightarrow> string option"
  nameToCategory :: "string \<Rightarrow> string option"
  getPasteRotatableType :: "string \<Rightarrow> PasteCompatibleRotationType option"
  rollingStockTypes :: "string set"
  getUndergroundDirection :: "nat \<Rightarrow> string option \<Rightarrow> nat"
  getRegisteredAssemblyEntity :: "EntityIdentification \<Rightarrow> entity_id option"
  getDirection :: "ProjectEntity \<Rightarrow> nat"
  isUndergroundBelt :: "ProjectEntity \<Rightarrow> bool"
  hasStageDiff :: "ProjectEntity \<Rightarrow> bool"
  getWorldEntity :: "ProjectEntity \<Rightarrow> StageNumber \<Rightarrow> LuaEntity option"
  setFirstStageUnchecked :: "ProjectEntity \<Rightarrow> StageNumber \<Rightarrow> ProjectEntity"
  setTypeProperty :: "ProjectEntity \<Rightarrow> string option \<Rightarrow> ProjectEntity"
  setPickupPosition :: "ProjectEntity \<Rightarrow> Position \<Rightarrow> ProjectEntity"
  setDropPosition :: "ProjectEntity \<Rightarrow> Position \<Rightarrow> ProjectEntity"
  applyUpgradeAtStage :: "ProjectEntity \<Rightarrow> StageNumber \<Rightarrow> string \<Rightarrow> bool \<times> ProjectEntity"
  getNameAtStage :: "ProjectEntity \<Rightarrow> StageNumber \<Rightarrow> string"
  adjustValueAtStage :: "ProjectEntity \<Rightarrow> StageNumber \<Rightarrow> EntityValue \<Rightarrow> bool \<times> ProjectEntity"
  saveEntity :: "LuaEntity \<Rightarrow> BlueprintEntity option \<Rightarrow> EntityValue option"
  canBeAnyDirection :: "LuaEntity \<Rightarrow> bool"
  areUpgradeableTypes :: "string \<Rightarrow> string \<Rightarrow> bool"
  findUndergroundPair :: "heap \<Rightarrow> AssemblyContent \<Rightarrow> entity_id \<Rightarrow> StageNumber \<Rightarrow> entity_id option"
  neighbours :: "LuaEntity \<Rightarrow> LuaEntity option"

text \<open>\<open>oppositedirection\<close> of the game's \<open>util\<close> library, on the eight directions.\<close>

definition oppositedirection :: "nat \<Rightarrow> nat" where
  "oppositedirection d = (d + 4) mod 8"

definition findCompatibleWithLuaEntity ::
  "env \<Rightarrow> heap \<Rightarrow> AssemblyContent \<Rightarrow> EntityIdentification \<Rightarrow> nat option \<Rightarrow> StageNumber \<Rightarrow>
   entity_id option" where
  "findCompatibleWithLuaEntity E h content entity previousDirection stage =
     (let type = ei_type entity in
      if type = ''underground-belt'' then
        (case findCompatibleByProps h (nameToCategory E) content type (ei_position entity) None stage of
           None \<Rightarrow> None
         | Some found \<Rightarrow>
             if getUndergroundDirection E (getDirection E (h found)) (type_prop (firstValue (h found)))
                = getUndergroundDirection E (ei_direction entity) (ei_belt_to_ground_type entity)
             then Some found else None)
      else if type \<in> rollingStockTypes E then
        (if ei_object_name entity = Some ''LuaEntity'' then
           (case getRegisteredAssemblyEntity E entity of
              None \<Rightarrow> None
            | Some registered \<Rightarrow> if registered \<in> entities content then Some registered else None)
         else None)
      else
        let entityName = ei_name entity in
        (case getPasteRotatableType E entityName of
           None \<Rightarrow>
             findCompatibleByProps h (nameToCategory E) content entityName (ei_position entity)
               (Some (case previousDirection of None \<Rightarrow> ei_direction entity | Some d \<Rightarrow> d)) stage
         | Some AnyDirection \<Rightarrow>
             findCompatibleByProps h (nameToCategory E) content entityName (ei_position entity)
               None stage
         | Some Flippable \<Rightarrow>
             let dir = (case previousDirection of None \<Rightarrow> ei_direction entity | Some d \<Rightarrow> d);
                 pos = ei_position entity
             in
             if dir mod 2 = 1 then
               findCompatibleByProps h (nameToCategory E) content entityName pos (Some dir) stage
             else
               (case findCompatibleByProps h (nameToCategory E) content entityName pos (Some dir)
                      stage of
                  Some r \<Rightarrow> Some r
                | None \<Rightarrow>
                    findCompatibleByProps h (nameToCategory E) content entityName pos
                      (Some (oppositedirection dir)) stage)))"


section \<open>Updates of the project (src/project/project-updates.ts)\<close>

text \<open>
  The functions of \<open>WorldEntityUpdates\<close> and \<open>forceFlipUnderground\<close> act on the rendered
  instances only.  A call of one of them is recorded, in order, in the list of world
  calls that every update function returns with its result and the new heap.
\<close>

datatype EntityUpdateResult = Updated | NoChange | CannotRotate | CannotUpgradeChangedPair

datatype StageMoveResult =
  MoveUpdated | MoveNoChange | CannotMovePastLastStage | CannotMoveBeforeFirstStage
| IntersectsAnotherEntity

datatype WorldCall =
  UpdateWorldEntities entity_id StageNumber "bool option"
| UpdateAllHighlights entity_id
| RefreshWorldEntityAtStage entity_id StageNumber
| ResetUnderground entity_id StageNumber
| ForceFlipUnderground LuaEntity
| MakeSettingsRemnant entity_id
| DeleteWorldEntities entity_id

datatype update_error = IncompatibleUpgrade string string

subsection \<open>Settings remnants\<close>

text \<open>The loop of \<open>shouldMakeSettingsRemnant\<close> over the circuit connections.\<close>

fun anyWithoutWorldEntity ::
  "env \<Rightarrow> heap \<Rightarrow> StageNumber \<Rightarrow> AsmEntityCircuitConnections \<Rightarrow> bool" where
  "anyWithoutWorldEntity E h stage [] = False"
| "anyWithoutWorldEntity E h stage ((otherEntity, connections) # rest) =
     (if getWorldEntity E (h otherEntity) stage = None then True
      else anyWithoutWorldEntity E h stage rest)"

definition shouldMakeSettingsRemnant :: "env \<Rightarrow> heap \<Rightarrow> AssemblyContent \<Rightarrow> entity_id \<Rightarrow> bool" where
  "shouldMakeSettingsRemnant E h content entity =
     (if hasStageDiff E (h entity) then True
      else (case getCircuitConnections content entity of
              None \<Rightarrow> False
            | Some connections \<Rightarrow>
                anyWithoutWorldEntity E h (firstStage (h entity)) connections))"

definition deleteEntityOrCreateSettingsRemnant ::
  "env \<Rightarrow> heap \<Rightarrow> AssemblyContent \<Rightarrow> entity_id \<Rightarrow> heap \<times> AssemblyContent \<times> WorldCall list" where
  "deleteEntityOrCreateSettingsRemnant E h content entity =
     (if shouldMakeSettingsRemnant E h content entity then
        (h(entity := (h entity)\<lparr>isSettingsRemnant := True\<rparr>), content, [MakeSettingsRemnant entity])
      else (h, delete h content entity, [DeleteWorldEntities entity]))"

subsection \<open>Moving the first stage\<close>




subsection \<open>Updates, rotations and upgrades observed in the world\<close>

definition minus :: "Position \<Rightarrow> Position \<Rightarrow> Position" where
  "minus pos1 pos2 = (fst pos1 - fst pos2, snd pos1 - snd pos2)"

definition applyValueFromWorld ::
  "env \<Rightarrow> heap \<Rightarrow> StageNumber \<Rightarrow> entity_id \<Rightarrow> LuaEntity \<Rightarrow> BlueprintEntity option \<Rightarrow> bool \<times> heap"
  where
  "applyValueFromWorld E h stage entity entitySource knownValue =
     (case saveEntity E entitySource knownValue of
        None \<Rightarrow> (False, h)
      | Some newValue \<Rightarrow>
          let (changed, e') = adjustValueAtStage E (h entity) stage newValue
          in (changed, h(entity := e')))"

definition checkUpgradeType :: "env \<Rightarrow> heap \<Rightarrow> entity_id \<Rightarrow> string \<Rightarrow> update_error option" where
  "checkUpgradeType E h existing upgradeType =
     (if \<not> areUpgradeableTypes E (name (firstValue (h existing))) upgradeType
      then Some (IncompatibleUpgrade (name (firstValue (h existing))) upgradeType)
      else None)"

definition updatePair ::
  "entity_id \<Rightarrow> StageNumber \<Rightarrow> entity_id \<Rightarrow> StageNumber \<Rightarrow> WorldCall list" where
  "updatePair entity1 entity1Stage entity2 entity2Stage =
     [UpdateWorldEntities entity1 entity1Stage (Some False),
      UpdateWorldEntities entity2 entity2Stage (Some False),
      UpdateAllHighlights entity1,
      UpdateAllHighlights entity2]"

definition handleUndergroundFlippedBack ::
  "env \<Rightarrow> heap \<Rightarrow> entity_id \<Rightarrow> LuaEntity \<Rightarrow> StageNumber \<Rightarrow> nat \<Rightarrow> entity_id option \<Rightarrow>
   EntityUpdateResult \<times> heap \<times> WorldCall list" where
  "handleUndergroundFlippedBack E h entity worldEntity stage targetDirection pair =
     (case pair of
        None \<Rightarrow> (NoChange, h, [UpdateWorldEntities entity stage None])
      | Some p \<Rightarrow>
          if direction (h p) = Some targetDirection then
            (NoChange, h, updatePair entity (firstStage (h entity)) p (firstStage (h p)))
          else
            let rotateAllowed = (stage = firstStage (h entity) \<or> firstStage (h p) = stage) in
            if \<not> rotateAllowed then (CannotRotate, h, [ForceFlipUnderground worldEntity])
            else
              let h1 = h(p := (h p)\<lparr>direction := Some (le_direction worldEntity)\<rparr>);
                  oppositeType =
                    (if belt_to_ground_type worldEntity = ''input'' then ''output'' else ''input'');
                  h2 = h1(p := setTypeProperty E (h1 p) (Some oppositeType))
              in (Updated, h2, updatePair entity (firstStage (h2 entity)) p (firstStage (h2 p))))"

text \<open>
  The calls \<open>pair?.applyUpgradeAtStage(...)\<close> of \<open>doUndergroundBeltUpdate\<close>: nothing
  happens without a pair.
\<close>

definition applyUpgradeAt :: "env \<Rightarrow> heap \<Rightarrow> entity_id \<Rightarrow> StageNumber \<Rightarrow> string \<Rightarrow> heap" where
  "applyUpgradeAt E h entity stage upgradeName =
     h(entity := snd (applyUpgradeAtStage E (h entity) stage upgradeName))"

definition applyUpgradeAtPair ::
  "env \<Rightarrow> heap \<Rightarrow> entity_id option \<Rightarrow> StageNumber \<Rightarrow> string \<Rightarrow> heap" where
  "applyUpgradeAtPair E h pair stage upgradeName =
     (case pair of None \<Rightarrow> h | Some p \<Rightarrow> applyUpgradeAt E h p stage upgradeName)"

definition doUndergroundBeltUpdate ::
  "env \<Rightarrow> heap \<Rightarrow> AssemblyContent \<Rightarrow> entity_id \<Rightarrow> LuaEntity \<Rightarrow> entity_id option \<Rightarrow> StageNumber \<Rightarrow>
   nat option \<Rightarrow> string \<Rightarrow> EntityUpdateResult \<times> heap \<times> WorldCall list" where
  "doUndergroundBeltUpdate E h content entity worldEntity pair stage targetDirection targetUpgrade =
     (let rotated = (targetDirection \<noteq> None \<and> targetDirection \<noteq> direction (h entity));
          oldName = getNameAtStage E (h entity) stage;
          upgraded = (targetUpgrade \<noteq> oldName)
      in
      if \<not> rotated \<and> \<not> upgraded then
        (case targetDirection of
           None \<Rightarrow> (NoChange, h, [])
         | Some td \<Rightarrow> handleUndergroundFlippedBack E h entity worldEntity stage td pair)
      else
        let isSelfOrPairFirstStage =
              (stage = firstStage (h entity) \<or>
               (case pair of None \<Rightarrow> False | Some p \<Rightarrow> firstStage (h p) = stage))
        in
        if rotated \<and> \<not> isSelfOrPairFirstStage then
          (CannotRotate, h, [ResetUnderground entity stage])
        else
          let h1 =
                (if rotated then
                   let ha = h(entity := (h entity)\<lparr>direction := targetDirection\<rparr>);
                       oldType = type_prop (firstValue (ha entity));
                       newType = (if oldType = Some ''input'' then ''output'' else ''input'');
                       hb = ha(entity := setTypeProperty E (ha entity) (Some newType))
                   in (case pair of
                         None \<Rightarrow> hb
                       | Some p \<Rightarrow>
                           let hc = hb(p := (hb p)\<lparr>direction := targetDirection\<rparr>)
                           in hc(p := setTypeProperty E (hc p) oldType))
                 else h);
              applyStage = (if isSelfOrPairFirstStage then firstStage (h1 entity) else stage);
              pairApplyStage =
                (case pair of
                   None \<Rightarrow> stage
                 | Some p \<Rightarrow> if isSelfOrPairFirstStage then firstStage (h1 p) else stage);
              (cannotUpgradeChangedPair, h2) =
                (if upgraded then
                   let hu = applyUpgradeAt E h1 entity applyStage targetUpgrade;
                       hv = applyUpgradeAtPair E hu pair pairApplyStage targetUpgrade;
                       newPair = findUndergroundPair E hv content entity stage
                   in
                   if newPair \<noteq> pair then
                     let hw = applyUpgradeAt E hv entity stage oldName
                     in (True, applyUpgradeAtPair E hw pair pairApplyStage oldName)
                   else (False, hv)
                 else (False, h1));
              calls =
                (if cannotUpgradeChangedPair \<and> \<not> rotated then
                   RefreshWorldEntityAtStage entity stage #
                   (case pair of None \<Rightarrow> [] | Some p \<Rightarrow> [RefreshWorldEntityAtStage p stage])
                 else
                   (case pair of
                      None \<Rightarrow> [UpdateWorldEntities entity applyStage None]
                    | Some p \<Rightarrow> updatePair entity applyStage p pairApplyStage))
          in (if cannotUpgradeChangedPair then CannotUpgradeChangedPair else Updated, h2, calls))"

text \<open>A rendered instance identifies itself as a \<open>LuaEntity\<close>.\<close>

definition identificationOf :: "LuaEntity \<Rightarrow> EntityIdentification" where
  "identificationOf e =
     \<lparr> ei_name = le_name e, ei_type = le_type e, ei_position = le_position e,
       ei_direction = le_direction e,
       ei_belt_to_ground_type = Some (belt_to_ground_type e),
       ei_object_name = Some ''LuaEntity'' \<rparr>"

definition handleUndergroundBeltUpdate ::
  "env \<Rightarrow> heap \<Rightarrow> AssemblyContent \<Rightarrow> entity_id \<Rightarrow> LuaEntity \<Rightarrow> StageNumber \<Rightarrow> nat option \<Rightarrow>
   string \<Rightarrow> EntityUpdateResult \<times> heap \<times> WorldCall list" where
  "handleUndergroundBeltUpdate E h content entity worldEntity stage targetDirection targetUpgrade =
     (let pair = findUndergroundPair E h content entity stage;
          (updateResult, h', calls) =
            doUndergroundBeltUpdate E h content entity worldEntity pair stage targetDirection
              targetUpgrade;
          highlights =
            (case getWorldEntity E (h' entity) stage of
               None \<Rightarrow> []
             | Some newWorldEntity \<Rightarrow>
                 (case neighbours E newWorldEntity of
                    None \<Rightarrow> []
                  | Some worldPair \<Rightarrow>
                      if (case pair of
                            None \<Rightarrow> True
                          | Some p \<Rightarrow> getWorldEntity E (h' p) stage \<noteq> Some worldPair)
                      then
                        (case findCompatibleWithLuaEntity E h' content (identificationOf worldPair)
                                None stage of
                           None \<Rightarrow> []
                         | Some worldPairEntity \<Rightarrow> [UpdateAllHighlights worldPairEntity])
                      else []))
      in (updateResult, h', calls @ highlights))"

definition handleUpdate ::
  "env \<Rightarrow> heap \<Rightarrow> AssemblyContent \<Rightarrow> entity_id \<Rightarrow> LuaEntity \<Rightarrow> StageNumber \<Rightarrow> nat option \<Rightarrow>
   string option \<Rightarrow> bool \<Rightarrow> BlueprintEntity option \<Rightarrow>
   update_error + EntityUpdateResult \<times> heap \<times> WorldCall list" where
  "handleUpdate E h content entity entitySource stage targetDirection targetUpgrade getBpValue
     knownBpValue =
     (if isUndergroundBelt E (h entity) then
        Inr (handleUndergroundBeltUpdate E h content entity entitySource stage targetDirection
               (case targetUpgrade of
                  Some u \<Rightarrow> u
                | None \<Rightarrow> (case knownBpValue of Some v \<Rightarrow> name v | None \<Rightarrow> le_name entitySource)))
      else
        let rotated = (targetDirection \<noteq> None \<and> targetDirection \<noteq> direction (h entity) \<and>
                       \<not> canBeAnyDirection E entitySource)
        in
        if rotated \<and> \<not> stage = firstStage (h entity) then
          Inr (CannotRotate, h, [RefreshWorldEntityAtStage entity stage])
        else
          let h1 =
                (if rotated then
                   let ha = h(entity := (h entity)\<lparr>direction := targetDirection\<rparr>);
                       entityType = le_type entitySource
                   in
                   if entityType = ''loader'' \<or> entityType = ''loader-1x1'' then
                     ha(entity := setTypeProperty E (ha entity) (Some (loader_type entitySource)))
                   else if entityType = ''inserter'' then
                     let hb =
                           (if pickup_position (firstValue (ha entity)) \<noteq> None then
                              ha(entity := setPickupPosition E (ha entity)
                                   (minus (le_pickup_position entitySource)
                                      (le_position entitySource)))
                            else ha)
                     in
                     if drop_position (firstValue (hb entity)) \<noteq> None then
                       hb(entity := setDropPosition E (hb entity)
                            (minus (le_drop_position entitySource) (le_position entitySource)))
                     else hb
                   else ha
                 else h);
              (applied, h2) =
                (if getBpValue then applyValueFromWorld E h1 stage entity entitySource knownBpValue
                 else (False, h1))
          in
          if applied then Inr (Updated, h2, [UpdateWorldEntities entity stage None])
          else
            (case targetUpgrade of
               None \<Rightarrow>
                 if rotated then Inr (Updated, h2, [UpdateWorldEntities entity stage None])
                 else Inr (NoChange, h2, [])
             | Some upgrade \<Rightarrow>
                 (case checkUpgradeType E h2 entity upgrade of
                    Some err \<Rightarrow> Inl err
                  | None \<Rightarrow>
                      let (hasDiff, e') = applyUpgradeAtStage E (h2 entity) stage upgrade;
                          h3 = h2(entity := e')
                      in
                      if rotated \<or> hasDiff then
                        Inr (Updated, h3, [UpdateWorldEntities entity stage None])
                      else Inr (NoChange, h3, []))))"

definition tryUpdateEntityFromWorld ::
  "env \<Rightarrow> heap \<Rightarrow> AssemblyContent \<Rightarrow> entity_id \<Rightarrow> StageNumber \<Rightarrow> BlueprintEntity option \<Rightarrow>
   update_error + EntityUpdateResult \<times> heap \<times> WorldCall list" where
  "tryUpdateEntityFromWorld E h content entity stage knownValue =
     (case getWorldEntity E (h entity) stage of
        None \<Rightarrow> Inr (NoChange, h, [])
      | Some entitySource \<Rightarrow>
          handleUpdate E h content entity entitySource stage (Some (le_direction entitySource)) None
            True knownValue)"

definition tryRotateEntityFromWorld ::
  "env \<Rightarrow> heap \<Rightarrow> AssemblyContent \<Rightarrow> entity_id \<Rightarrow> StageNumber \<Rightarrow>
   update_error + EntityUpdateResult \<times> heap \<times> WorldCall list" where
  "tryRotateEntityFromWorld E h content entity stage =
     (case getWorldEntity E (h entity) stage of
        None \<Rightarrow> Inr (NoChange, h, [])
      | Some entitySource \<Rightarrow>
          handleUpdate E h content entity entitySource stage (Some (le_direction entitySource)) None
            False None)"

definition tryUpgradeEntityFromWorld ::
  "env \<Rightarrow> heap \<Rightarrow> AssemblyContent \<Rightarrow> entity_id \<Rightarrow> StageNumber \<Rightarrow>
   update_error + EntityUpdateResult \<times> heap \<times> WorldCall list" where
  "tryUpgradeEntityFromWorld E h content entity stage =
     (case getWorldEntity E (h entity) stage of
        None \<Rightarrow> Inr (NoChange, h, [])
      | Some entitySource \<Rightarrow>
          handleUpdate E h content entity entitySource stage (upgrade_direction entitySource)
            (upgrade_target entitySource) False None)"

section \<open>An environment for the examples\<close>

text \<open>
  Modelled from the spec: the methods of ProjectEntity that the examples run
  (entity/ProjectEntity.ts is not among the sources).  The specification has a diff
  applied at the first stage merged into the base value and a diff applied at a later
  stage merged into, or created as, the diff of that stage, and reports whether anything
  changed; the value at a stage is the base value with the diffs up to that stage
  applied in ascending order; moving the first stage up folds the diffs up to the new
  first stage into the base value and removes them.  Of the properties of a value the
  examples use the name only.
\<close>

fun nameAfterDiffs ::
  "StageNumber \<Rightarrow> string \<Rightarrow> (StageNumber \<times> string LayerDiff) list \<Rightarrow> string" where
  "nameAfterDiffs stage n [] = n"
| "nameAfterDiffs stage n ((changedStage, diff) # rest) =
     (if changedStage > stage then n
      else nameAfterDiffs stage
             (case map_of diff ''name'' of Some (Value v) \<Rightarrow> v | _ \<Rightarrow> n) rest)"

definition specGetNameAtStage :: "ProjectEntity \<Rightarrow> StageNumber \<Rightarrow> string" where
  "specGetNameAtStage e stage = nameAfterDiffs stage (name (firstValue e)) (stageDiffs e)"

definition specApplyUpgradeAtStage ::
  "ProjectEntity \<Rightarrow> StageNumber \<Rightarrow> string \<Rightarrow> bool \<times> ProjectEntity" where
  "specApplyUpgradeAtStage e stage newName =
     (if specGetNameAtStage e stage = newName then (False, e)
      else if stage = firstStage e then
        (True, e\<lparr>firstValue := (firstValue e)\<lparr>name := newName\<rparr>\<rparr>)
      else
        (True,
         e\<lparr>stageDiffs :=
             (case map_of (stageDiffs e) stage of
                Some d \<Rightarrow>
                  AList.update stage (AList.update ''name'' (Value newName) d) (stageDiffs e)
              | None \<Rightarrow> insort_key fst (stage, [(''name'', Value newName)]) (stageDiffs e))\<rparr>))"

definition specSetFirstStageUnchecked :: "ProjectEntity \<Rightarrow> StageNumber \<Rightarrow> ProjectEntity" where
  "specSetFirstStageUnchecked e stage =
     (if stage > firstStage e then
        e\<lparr>firstStage := stage,
          firstValue := (firstValue e)\<lparr>name := specGetNameAtStage e stage\<rparr>,
          stageDiffs := filter (\<lambda>(k, d). k > stage) (stageDiffs e)\<rparr>
      else e\<lparr>firstStage := stage\<rparr>)"

text \<open>
  The environment of the examples.  Belts and underground belts are the only
  prototypes; an underground belt of type output faces against its direction; values
  read from the world are not used.  The pair of underground belt 1 is entity 2 as long
  as entity 1 is a plain underground belt at the stage, and entity 3 once it is a fast
  one, whose reach is longer.
\<close>

definition exampleType :: "string \<Rightarrow> string option" where
  "exampleType n =
     (if n = ''underground-belt'' \<or> n = ''fast-underground-belt'' then Some ''underground-belt''
      else if n = ''transport-belt'' \<or> n = ''fast-transport-belt'' then Some ''transport-belt''
      else None)"

definition exampleFindUndergroundPair ::
  "heap \<Rightarrow> AssemblyContent \<Rightarrow> entity_id \<Rightarrow> StageNumber \<Rightarrow> entity_id option" where
  "exampleFindUndergroundPair h content entity stage =
     (if entity = 1 then
        (if specGetNameAtStage (h 1) stage = ''underground-belt'' then Some 2 else Some 3)
      else if entity = 2 then Some 1
      else None)"

definition exampleEnv :: env where
  "exampleEnv =
     \<lparr> nameToType = exampleType,
       nameToCategory = exampleCategory,
       getPasteRotatableType = (\<lambda>n. None),
       rollingStockTypes = {},
       getUndergroundDirection = (\<lambda>d t. if t = Some ''output'' then oppositedirection d else d),
       getRegisteredAssemblyEntity = (\<lambda>e. None),
       getDirection = (\<lambda>e. case direction e of None \<Rightarrow> 0 | Some d \<Rightarrow> d),
       isUndergroundBelt = (\<lambda>e. exampleType (name (firstValue e)) = Some ''underground-belt''),
       hasStageDiff = (\<lambda>e. stageDiffs e \<noteq> []),
       getWorldEntity = worldEntities,
       setFirstStageUnchecked = specSetFirstStageUnchecked,
       setTypeProperty = (\<lambda>e t. e\<lparr>firstValue := (firstValue e)\<lparr>type_prop := t\<rparr>\<rparr>),
       setPickupPosition = (\<lambda>e p. e\<lparr>firstValue := (firstValue e)\<lparr>pickup_position := Some p\<rparr>\<rparr>),
       setDropPosition = (\<lambda>e p. e\<lparr>firstValue := (firstValue e)\<lparr>drop_position := Some p\<rparr>\<rparr>),
       applyUpgradeAtStage = specApplyUpgradeAtStage,
       getNameAtStage = specGetNameAtStage,
       adjustValueAtStage = (\<lambda>e stage v. (False, e)),
       saveEntity = (\<lambda>e known. None),
       canBeAnyDirection = (\<lambda>e. False),
       areUpgradeableTypes = (\<lambda>a b. exampleType a = exampleType b),
       findUndergroundPair = exampleFindUndergroundPair,
       neighbours = (\<lambda>e. None) \<rparr>"

text \<open>A rendered instance with the given name, type and direction.\<close>

definition exampleLuaEntity :: "string \<Rightarrow> string \<Rightarrow> nat \<Rightarrow> LuaEntity" where
  "exampleLuaEntity entityName entityType dir =
     \<lparr> le_name = entityName, le_type = entityType, le_position = (0, 0), le_direction = dir,
       belt_to_ground_type = ''input'', loader_type = ''input'',
       le_pickup_position = (0, 0), le_drop_position = (0, 0),
       upgrade_target = None, upgrade_direction = None \<rparr>"

text \<open>
  The store \<open>exampleContentConnected\<close> with entity 2 rendered at every stage (heap
  \<open>exampleHeapRendered\<close>) and with no entity rendered (heap \<open>exampleHeap\<close>).
\<close>

definition exampleHeapRendered :: heap where
  "exampleHeapRendered i =
     (if i = 2 then
        (exampleHeap 2)\<lparr>worldEntities :=
           (\<lambda>stage. Some (exampleLuaEntity ''fast-transport-belt'' ''transport-belt'' 0))\<rparr>
      else exampleHeap i)"

text \<open>
  Underground belts: entity 1 is an input end from stage 1 on, entity 2 its output end
  from stage 2 on, both facing west (direction 6); entity 3 is a fast underground belt.
  Entity 1 is rendered at every stage, with an order to upgrade it to a fast
  underground belt.
\<close>

definition exampleUnderground ::
  "string \<Rightarrow> string \<Rightarrow> StageNumber \<Rightarrow> ProjectEntity" where
  "exampleUnderground entityName beltType firstS =
     (exampleEntity entityName (0, 0) (Some 6) firstS None)
       \<lparr>firstValue := \<lparr> name = entityName, type_prop = Some beltType,
                        pickup_position = None, drop_position = None \<rparr>\<rparr>"

definition exampleUpgradeOrder :: LuaEntity where
  "exampleUpgradeOrder =
     (exampleLuaEntity ''underground-belt'' ''underground-belt'' 6)
       \<lparr>upgrade_target := Some ''fast-underground-belt''\<rparr>"

definition exampleUndergroundHeap :: heap where
  "exampleUndergroundHeap i =
     (if i = 1 then
        (exampleUnderground ''underground-belt'' ''input'' 1)
          \<lparr>worldEntities := (\<lambda>stage. Some exampleUpgradeOrder)\<rparr>
      else if i = 2 then exampleUnderground ''underground-belt'' ''output'' 2
      else exampleUnderground ''fast-underground-belt'' ''output'' 1)"

text \<open>
  An assembling machine from stage 1 on, rendered at every stage with direction 2; its
  rendered instances can be in any direction.
\<close>

definition exampleMachineHeap :: heap where
  "exampleMachineHeap i =
     (exampleEntity ''assembling-machine-1'' (0, 0) None 1 None)
       \<lparr>worldEntities :=
          (\<lambda>stage. Some (exampleLuaEntity ''assembling-machine-1'' ''assembling-machine'' 2))\<rparr>"

definition exampleMachineEnv :: env where
  "exampleMachineEnv =
     exampleEnv\<lparr>canBeAnyDirection := (\<lambda>e. le_type e = ''assembling-machine'')\<rparr>"

section \<open>Diff algebra: lemmas\<close>

lemma map_of_diffChanged:
  "distinct (map fst aboveL) \<Longrightarrow>
   map_of (diffChanged belowE aboveL changes) k =
     (case map_of aboveL k of
        Some v \<Rightarrow>
          if k \<notin> ignoredProps \<and> map_of belowE k \<noteq> Some v then Some (Value v)
          else map_of changes k
      | None \<Rightarrow> map_of changes k)"
proof (induction aboveL arbitrary: changes)
  case Nil
  then show ?case by simp
next
  case (Cons p rest)
  obtain key v where p: "p = (key, v)" by (cases p)
  from Cons.prems have d: "distinct (map fst rest)" and nk: "key \<notin> fst ` set rest"
    by (auto simp: p)
  have nk': "map_of rest key = None" using nk by (simp add: map_of_eq_None_iff)
  show ?case
    using Cons.IH[OF d] nk'
    by (auto simp: p deepCompare_def update_conv' split: option.splits)
qed

lemma map_of_diffRemoved:
  "map_of (diffRemoved aboveE belowL changes) k =
     (if map_of belowL k \<noteq> None \<and> k \<notin> ignoredProps \<and> map_of aboveE k = None
      then Some NilPlaceholder
      else map_of changes k)"
  by (induction belowL arbitrary: changes) (auto simp: update_conv')

lemma distinct_diffChanged:
  "distinct (map fst changes) \<Longrightarrow> distinct (map fst (diffChanged belowE aboveL changes))"
  by (induction aboveL arbitrary: changes) (auto simp: distinct_update)

lemma distinct_diffRemoved:
  "distinct (map fst changes) \<Longrightarrow> distinct (map fst (diffRemoved aboveE belowL changes))"
  by (induction belowL arbitrary: changes) (auto simp: distinct_update)

lemma map_of_applyDiffToEntity:
  "distinct (map fst d) \<Longrightarrow>
   map_of (applyDiffToEntity entity d) k =
     (case map_of d k of
        None \<Rightarrow> map_of entity k
      | Some NilPlaceholder \<Rightarrow> None
      | Some (Value v) \<Rightarrow> Some v)"
proof (induction d arbitrary: entity)
  case Nil
  then show ?case by simp
next
  case (Cons p rest)
  obtain key v where p: "p = (key, v)" by (cases p)
  from Cons.prems have d: "distinct (map fst rest)" and nk: "key \<notin> fst ` set rest"
    by (auto simp: p)
  have nk': "map_of rest key = None" using nk by (simp add: map_of_eq_None_iff)
  show ?case
    using Cons.IH[OF d] nk'
    by (auto simp: p update_conv' delete_conv' split: option.splits diff_value.splits)
qed

lemma getEntityDiff_map_of:
  assumes "distinct (map fst aboveE)"
  shows "map_of (diffRemoved aboveE belowE (diffChanged belowE aboveE [])) k =
     (if k \<in> ignoredProps \<or> map_of belowE k = map_of aboveE k then None
      else case map_of aboveE k of None \<Rightarrow> Some NilPlaceholder | Some v \<Rightarrow> Some (Value v))"
  using assms
  by (auto simp: map_of_diffRemoved map_of_diffChanged split: option.splits)

lemma map_of_empty_iff: "(xs = []) = (\<forall>k. map_of xs k = None)"
  by (cases xs) (auto simp: fun_eq_iff)

lemma applyLayerChanges_sorted:
  "sorted (map fst lc) \<Longrightarrow>
   applyLayerChanges s v lc =
     fold (\<lambda>(k, d) v. applyDiffToEntity v d) (filter (\<lambda>(k, d). k \<le> s) lc) v"
proof (induction lc arbitrary: v)
  case Nil
  then show ?case by simp
next
  case (Cons p rest)
  obtain k d where p: "p = (k, d)" by (cases p)
  show ?case
  proof (cases "k > s")
    case True
    with Cons.prems have "\<forall>q \<in> set rest. \<not> fst q \<le> s" by (auto simp: p)
    then have "filter (\<lambda>(k, d). k \<le> s) rest = []" by (auto simp: filter_empty_conv)
    with True show ?thesis by (simp add: p)
  next
    case False
    with Cons show ?thesis by (simp add: p)
  qed
qed

text \<open>The ascending order of \<open>layerChanges\<close> is kept by \<open>applyDiffAtLayer\<close>.\<close>

lemma applyDiffAtLayer_sorted:
  "sorted (map fst (layerChanges e)) \<Longrightarrow> applyDiffAtLayer e layer diff = Inr e' \<Longrightarrow>
   sorted (map fst (layerChanges e'))"
proof -
  assume s: "sorted (map fst (layerChanges e))" and a: "applyDiffAtLayer e layer diff = Inr e'"
  show ?thesis
  proof (cases "map_of (layerChanges e) layer")
    case None
    with s a show ?thesis
      by (auto simp: applyDiffAtLayer_def sorted_insort_key split: if_splits)
  next
    case (Some x)
    then have "layer \<in> fst ` set (layerChanges e)"
      by (metis domI dom_map_of_conv_image_fst)
    then have "map fst (AList.update layer v (layerChanges e)) = map fst (layerChanges e)" for v
      by (simp add: update_keys)
    with s a Some show ?thesis
      by (auto simp: applyDiffAtLayer_def split: if_splits)
  qed
qed

section \<open>Claims about the value store and the diff algebra\<close>

text \<open>
  C1. For an entity whose \<open>layerChanges\<close> are visited in ascending layer order and every
  layer \<open>s \<ge> 1\<close>, \<open>getValueAtLayer\<close> returns \<open>nil\<close> when \<open>s\<close> is below the base layer, and
  otherwise the base value with every stored diff whose layer is at most \<open>s\<close> applied, in
  ascending layer order.  For the entity created at layer 3 with value \<open>{size: 1}\<close> to
  which the diff \<open>{size: 3}\<close> is applied at layer 5, the values at layers 2, 4, 5 and 10
  are \<open>nil\<close>, \<open>{size: 1}\<close>, \<open>{size: 3}\<close> and \<open>{size: 3}\<close>.
\<close>

theorem getValueAtLayer_spec:
  assumes "1 \<le> s" and "sorted (map fst (layerChanges e))"
  shows "getValueAtLayer e s =
           Inr (if s < baseLayer e then None
                else Some (fold (\<lambda>(k, d) v. applyDiffToEntity v d)
                             (filter (\<lambda>(k, d). k \<le> s) (layerChanges e)) (baseValue e)))
         \<and> (case applyDiffAtLayer (createAssemblyEntity [(''size'', 1::nat)] (0, 0) None 3) 5
                   [(''size'', Value 3)] of
               Inl err \<Rightarrow> False
             | Inr E \<Rightarrow>
                 getValueAtLayer E 2 = Inr None \<and>
                 getValueAtLayer E 4 = Inr (Some [(''size'', 1)]) \<and>
                 getValueAtLayer E 5 = Inr (Some [(''size'', 3)]) \<and>
                 getValueAtLayer E 10 = Inr (Some [(''size'', 3)]))"
proof -
  have "getValueAtLayer e s =
           Inr (if s < baseLayer e then None
                else Some (fold (\<lambda>(k, d) v. applyDiffToEntity v d)
                             (filter (\<lambda>(k, d). k \<le> s) (layerChanges e)) (baseValue e)))"
    using assms by (simp add: getValueAtLayer_def applyLayerChanges_sorted)
  moreover have "case applyDiffAtLayer (createAssemblyEntity [(''size'', 1::nat)] (0, 0) None 3) 5
                   [(''size'', Value 3)] of
               Inl err \<Rightarrow> False
             | Inr E \<Rightarrow>
                 getValueAtLayer E 2 = Inr None \<and>
                 getValueAtLayer E 4 = Inr (Some [(''size'', 1)]) \<and>
                 getValueAtLayer E 5 = Inr (Some [(''size'', 3)]) \<and>
                 getValueAtLayer E 10 = Inr (Some [(''size'', 3)])"
    by (simp add: applyDiffAtLayer_def createAssemblyEntity_def getValueAtLayer_def)
  ultimately show ?thesis by blast
qed

theorem getValueAtLayer_spec_witness:
  "(1::nat) \<le> 6 \<and>
   sorted (map fst [(5::nat, [(''size'', Value (3::nat))]), (7, [(''size'', NilPlaceholder)])]) \<and>
   getValueAtLayer
     \<lparr> ae_position = (0, 0), ae_direction = None, baseLayer = 3,
       baseValue = [(''size'', 1::nat)],
       layerChanges = [(5, [(''size'', Value 3)]), (7, [(''size'', NilPlaceholder)])] \<rparr> 6
     = Inr (Some [(''size'', 3)])"
proof -
  have h1: "(1::nat) \<le> 6" by simp
  have h2: "sorted (map fst (layerChanges
     \<lparr> ae_position = (0, 0), ae_direction = None, baseLayer = 3,
       baseValue = [(''size'', 1::nat)],
       layerChanges = [(5, [(''size'', Value 3)]), (7, [(''size'', NilPlaceholder)])] \<rparr>))"
    by simp
  show ?thesis
    using getValueAtLayer_spec[OF h1 h2] by simp
qed

text \<open>
  C2, as the claim states it, fails: \<open>getEntityDiff\<close> skips the properties \<open>position\<close> and
  \<open>direction\<close>.  With \<open>a = {position: 1, name: 5}\<close> and \<open>b = {position: 2, name: 6}\<close> the
  diff is \<open>{name: 6}\<close> and applying it to \<open>a\<close> gives \<open>{position: 1, name: 6}\<close>, which is not
  \<open>b\<close>; with \<open>a = {position: 1}\<close> and \<open>b = {position: 2}\<close> the diff is \<open>nil\<close> although a
  property changed.
\<close>

theorem getEntityDiff_roundtrip_counterexample:
  "getEntityDiff [(''position'', 1::nat), (''name'', 5)] [(''position'', 2), (''name'', 6)]
     = Some [(''name'', Value 6)] \<and>
   applyDiffToEntity [(''position'', 1::nat), (''name'', 5)] [(''name'', Value 6)]
     = [(''position'', 1), (''name'', 6)] \<and>
   map_of [(''position'', 1::nat), (''name'', 6)] \<noteq> map_of [(''position'', 2), (''name'', 6)] \<and>
   getEntityDiff [(''position'', 1::nat)] [(''position'', 2)] = None \<and>
   map_of [(''position'', 1::nat)] \<noteq> map_of [(''position'', 2)]"
  by (simp add: getEntityDiff_def nilIfEmpty_def ignoredProps_def deepCompare_def fun_eq_iff)

text \<open>
  C2, amended. For snapshots \<open>a\<close> (\<open>belowE\<close>) and \<open>b\<close> (\<open>aboveE\<close>): \<open>getEntityDiff a b\<close> is
  \<open>nil\<close> exactly when \<open>a\<close> and \<open>b\<close> agree on every property other than \<open>position\<close> and
  \<open>direction\<close>; otherwise applying the diff to \<open>a\<close> yields a table that has \<open>b\<close>'s value
  (or absence) for every other property, also where \<open>b\<close> omits a property of \<open>a\<close>, and
  keeps \<open>a\<close>'s \<open>position\<close> and \<open>direction\<close>.
\<close>

theorem getEntityDiff_roundtrip:
  assumes "distinct (map fst aboveE)"
  shows "case getEntityDiff belowE aboveE of
           None \<Rightarrow> (\<forall>k. k \<notin> ignoredProps \<longrightarrow> map_of belowE k = map_of aboveE k)
         | Some d \<Rightarrow>
             (\<exists>k. k \<notin> ignoredProps \<and> map_of belowE k \<noteq> map_of aboveE k) \<and>
             (\<forall>k. map_of (applyDiffToEntity belowE d) k =
                   (if k \<in> ignoredProps then map_of belowE k else map_of aboveE k))"
proof -
  let ?d = "diffRemoved aboveE belowE (diffChanged belowE aboveE [])"
  have dist: "distinct (map fst ?d)"
    by (simp add: distinct_diffRemoved distinct_diffChanged)
  note m = getEntityDiff_map_of[OF assms, of belowE]
  show ?thesis
  proof (cases "?d = []")
    case True
    then have n: "map_of ?d k = None" for k by simp
    have "map_of belowE k = map_of aboveE k" if "k \<notin> ignoredProps" for k
      using n[of k] that unfolding m by (auto split: if_splits option.splits)
    then have "\<forall>k. k \<notin> ignoredProps \<longrightarrow> map_of belowE k = map_of aboveE k"
      by blast
    then show ?thesis using True by (simp add: getEntityDiff_def nilIfEmpty_def)
  next
    case False
    then obtain k where k: "map_of ?d k \<noteq> None" by (auto simp: map_of_empty_iff)
    then have ex: "\<exists>k. k \<notin> ignoredProps \<and> map_of belowE k \<noteq> map_of aboveE k"
      unfolding m by (auto split: if_splits)
    have "\<forall>k. map_of (applyDiffToEntity belowE ?d) k =
                   (if k \<in> ignoredProps then map_of belowE k else map_of aboveE k)"
      unfolding map_of_applyDiffToEntity[OF dist] m by (auto split: option.splits)
    then show ?thesis using False ex by (simp add: getEntityDiff_def nilIfEmpty_def)
  qed
qed

theorem getEntityDiff_roundtrip_witness:
  "distinct (map fst [(''name'', 1::nat), (''position'', 8)]) \<and>
   getEntityDiff [(''name'', 1::nat), (''size'', 2), (''position'', 7)]
       [(''name'', 1), (''position'', 8)]
     = Some [(''size'', NilPlaceholder)] \<and>
   (\<forall>k. map_of (applyDiffToEntity [(''name'', 1::nat), (''size'', 2), (''position'', 7)]
                  [(''size'', NilPlaceholder)]) k =
         (if k \<in> ignoredProps then map_of [(''name'', 1::nat), (''size'', 2), (''position'', 7)] k
          else map_of [(''name'', 1), (''position'', 8)] k))"
proof -
  have h: "distinct (map fst [(''name'', 1::nat), (''position'', 8)])" by simp
  have g: "getEntityDiff [(''name'', 1::nat), (''size'', 2), (''position'', 7)]
             [(''name'', 1), (''position'', 8)]
           = Some [(''size'', NilPlaceholder)]"
    by (simp add: getEntityDiff_def nilIfEmpty_def ignoredProps_def deepCompare_def)
  show ?thesis
    using getEntityDiff_roundtrip[OF h, of "[(''name'', 1::nat), (''size'', 2), (''position'', 7)]"] h
    unfolding g by simp
qed

section \<open>findCompatibleByProps\<close>

lemma findCandidate_step:
  "findCandidate h ntc entityName (ntc entityName) dir stage (cur # rest) candidate =
     findCandidate h ntc entityName (ntc entityName) dir stage rest
       (if compatibleByProps h ntc entityName dir stage cur \<and>
           (case candidate of None \<Rightarrow> True | Some c \<Rightarrow> firstStage (h cur) < firstStage (h c))
        then Some cur else candidate)"
proof -
  have eq: "compatibleByProps h ntc entityName dir stage cur =
        ((dir = None \<or> dir = Some (case direction (h cur) of None \<Rightarrow> 0 | Some d \<Rightarrow> d)) \<and>
           (case lastStage (h cur) of None \<Rightarrow> True | Some l \<Rightarrow> l \<ge> stage) \<and>
           (name (firstValue (h cur)) = entityName \<or>
            (ntc entityName \<noteq> None \<and> ntc (name (firstValue (h cur))) = ntc entityName)))"
    by (auto simp: compatibleByProps_def split: option.splits)
  show ?thesis by (simp only: findCandidate.simps eq conj_assoc)
qed

lemma findCandidate_None_iff:
  "(findCandidate h ntc entityName (ntc entityName) dir stage bucket candidate = None) =
   (candidate = None \<and> (\<forall>e \<in> set bucket. \<not> compatibleByProps h ntc entityName dir stage e))"
proof (induction bucket arbitrary: candidate)
  case Nil
  then show ?case by simp
next
  case (Cons cur rest)
  show ?case
    unfolding findCandidate_step Cons.IH
    by (auto split: option.splits)
qed

lemma findCandidate_Some:
  "findCandidate h ntc entityName (ntc entityName) dir stage bucket candidate = Some r \<Longrightarrow>
   (\<forall>c. candidate = Some c \<longrightarrow> compatibleByProps h ntc entityName dir stage c) \<Longrightarrow>
   (r \<in> set bucket \<or> candidate = Some r) \<and>
   compatibleByProps h ntc entityName dir stage r \<and>
   (\<forall>c. candidate = Some c \<longrightarrow> firstStage (h r) \<le> firstStage (h c)) \<and>
   (\<forall>e \<in> set bucket. compatibleByProps h ntc entityName dir stage e \<longrightarrow>
        firstStage (h r) \<le> firstStage (h e))"
proof (induction bucket arbitrary: candidate)
  case Nil
  then show ?case by simp
next
  case (Cons cur rest)
  let ?P = "compatibleByProps h ntc entityName dir stage"
  let ?take = "?P cur \<and>
           (case candidate of None \<Rightarrow> True | Some c \<Rightarrow> firstStage (h cur) < firstStage (h c))"
  let ?cand = "if ?take then Some cur else candidate"
  from Cons.prems(1) have r: "findCandidate h ntc entityName (ntc entityName) dir stage rest ?cand = Some r"
    unfolding findCandidate_step .
  have inv: "\<forall>c. ?cand = Some c \<longrightarrow> ?P c"
    using Cons.prems(2) by auto
  note IH = Cons.IH[OF r inv]
  show ?case
  proof (cases ?take)
    case True
    then have c: "?cand = Some cur" by (rule if_P)
    from IH have 1: "r \<in> set rest \<or> r = cur" and 2: "?P r"
      and 3: "firstStage (h r) \<le> firstStage (h cur)"
      and 4: "\<forall>e \<in> set rest. ?P e \<longrightarrow> firstStage (h r) \<le> firstStage (h e)"
      unfolding c by auto
    from True 3 have 5: "\<forall>c. candidate = Some c \<longrightarrow> firstStage (h r) \<le> firstStage (h c)"
      by (auto split: option.splits)
    from 1 2 3 4 5 show ?thesis by auto
  next
    case False
    then have c: "?cand = candidate" by (rule if_not_P)
    from IH have 1: "r \<in> set rest \<or> candidate = Some r" and 2: "?P r"
      and 3: "\<forall>c. candidate = Some c \<longrightarrow> firstStage (h r) \<le> firstStage (h c)"
      and 4: "\<forall>e \<in> set rest. ?P e \<longrightarrow> firstStage (h r) \<le> firstStage (h e)"
      unfolding c by auto
    have 5: "?P cur \<longrightarrow> firstStage (h r) \<le> firstStage (h cur)"
      using False 3 by (auto split: option.splits)
    from 1 2 3 4 5 show ?thesis by auto
  qed
qed

text \<open>
  C5. \<open>findCompatibleByProps\<close> returns \<open>nil\<close> exactly when no entity of the bucket at the
  exact position satisfies the three conditions (\<open>lastStage\<close> is \<open>nil\<close> or at least the
  stage; same name or same category; the direction, when one is requested).  Otherwise
  it returns an entity of the bucket that satisfies them and whose \<open>firstStage\<close> is the
  smallest among the entities of the bucket that do.
\<close>

theorem findCompatibleByProps_spec:
  "(findCompatibleByProps h ntc content entityName pos dir stage = None \<longleftrightarrow>
      (\<forall>e \<in> set (byPosition content pos). \<not> compatibleByProps h ntc entityName dir stage e)) \<and>
   (\<forall>r. findCompatibleByProps h ntc content entityName pos dir stage = Some r \<longrightarrow>
      r \<in> set (byPosition content pos) \<and>
      compatibleByProps h ntc entityName dir stage r \<and>
      (\<forall>e \<in> set (byPosition content pos).
          compatibleByProps h ntc entityName dir stage e \<longrightarrow> firstStage (h r) \<le> firstStage (h e)))"
proof -
  have a: "findCompatibleByProps h ntc content entityName pos dir stage =
        findCandidate h ntc entityName (ntc entityName) dir stage (byPosition content pos) None"
    by (cases "byPosition content pos") (simp_all add: findCompatibleByProps_def)
  show ?thesis
    unfolding a using findCandidate_Some[of h ntc entityName dir stage "byPosition content pos" None]
    by (auto simp: findCandidate_None_iff)
qed

theorem findCompatibleByProps_spec_witness:
  "findCompatibleByProps exampleHeap exampleCategory exampleContent
       ''transport-belt'' (0, 0) (Some 0) 3 = Some 3 \<and>
   3 \<in> set (byPosition exampleContent (0, 0)) \<and>
   compatibleByProps exampleHeap exampleCategory ''transport-belt'' (Some 0) 3 1 \<and>
   compatibleByProps exampleHeap exampleCategory ''transport-belt'' (Some 0) 3 3 \<and>
   \<not> compatibleByProps exampleHeap exampleCategory ''transport-belt'' (Some 0) 3 2 \<and>
   firstStage (exampleHeap 3) \<le> firstStage (exampleHeap 1)"
proof -
  have f: "findCompatibleByProps exampleHeap exampleCategory exampleContent
       ''transport-belt'' (0, 0) (Some 0) 3 = Some 3"
    by (simp add: findCompatibleByProps_def exampleHeap_def exampleCategory_def
        exampleContent_def exampleEntity_def)
  have c1: "compatibleByProps exampleHeap exampleCategory ''transport-belt'' (Some 0) 3 1"
    by (simp add: compatibleByProps_def exampleHeap_def exampleCategory_def exampleEntity_def)
  have c2: "\<not> compatibleByProps exampleHeap exampleCategory ''transport-belt'' (Some 0) 3 2"
    by (simp add: compatibleByProps_def exampleHeap_def exampleCategory_def exampleEntity_def)
  have m: "1 \<in> set (byPosition exampleContent (0, 0))"
    by (simp add: exampleContent_def)
  from findCompatibleByProps_spec[of exampleHeap exampleCategory exampleContent
      "''transport-belt''" "(0, 0)" "Some 0" 3] f c1 m
  have "3 \<in> set (byPosition exampleContent (0, 0)) \<and>
        compatibleByProps exampleHeap exampleCategory ''transport-belt'' (Some 0) 3 3 \<and>
        firstStage (exampleHeap 3) \<le> firstStage (exampleHeap 1)"
    by blast
  with f c1 c2 show ?thesis by blast
qed

section \<open>Circuit connections: adding and removing\<close>

lemma luaset_delete_add: "c \<notin> set S \<Longrightarrow> luaset_delete c (luaset_add c S) = S"
  by (simp add: luaset_add_def luaset_delete_def)

lemma map_of_None_notin: "map_of m k = None \<Longrightarrow> k \<notin> fst ` set m"
  by (simp add: map_of_eq_None_iff)

lemma side_restore:
  assumes "\<forall>S. map_of m k = Some S \<longrightarrow> S \<noteq> [] \<and> c \<notin> set S"
  defines "S' \<equiv> (case map_of m k of None \<Rightarrow> [c] | Some s \<Rightarrow> luaset_add c s)"
  defines "m' \<equiv> AList.update k S' m"
  shows "map_of m' k = Some S'"
    and "(if isEmpty (luaset_delete c S') then AList.delete k m'
          else AList.update k (luaset_delete c S') m') = m"
    and "isEmpty (luaset_delete c S') \<Longrightarrow> map_of m k = None"
proof -
  show "map_of m' k = Some S'" by (simp add: m'_def update_conv')
  show "(if isEmpty (luaset_delete c S') then AList.delete k m'
          else AList.update k (luaset_delete c S') m') = m"
  proof (cases "map_of m k")
    case None
    then show ?thesis
      by (simp add: m'_def S'_def isEmpty_def luaset_delete_def delete_update_same map_of_None_notin)
  next
    case (Some S)
    with assms(1) have "S \<noteq> []" "c \<notin> set S" by auto
    with Some show ?thesis
      by (simp add: m'_def S'_def isEmpty_def luaset_delete_add update_triv)
  qed
  show "isEmpty (luaset_delete c S') \<Longrightarrow> map_of m k = None"
  proof (cases "map_of m k")
    case None
    then show ?thesis by simp
  next
    case (Some S)
    with assms(1) have "S \<noteq> []" "c \<notin> set S" by auto
    with Some show "isEmpty (luaset_delete c S') \<Longrightarrow> map_of m k = None"
      by (simp add: S'_def isEmpty_def luaset_delete_add)
  qed
qed

lemma add_remove:
  assumes ok: "circuitIndexOk content"
    and add: "addCircuitConnection content c = (True, content')"
  shows "removeCircuitConnection content' c = content"
proof -
  let ?f = "fromEntity c" and ?t = "toEntity c" and ?cc = "circuitConnections content"
  define fc where "fc = (case ?cc ?f of None \<Rightarrow> [] | Some m \<Rightarrow> m)"
  define tc where "tc = (case ?cc ?t of None \<Rightarrow> [] | Some m \<Rightarrow> m)"
  have nodup: "\<not> (case ?cc ?f of
                 None \<Rightarrow> False
               | Some fromConnections \<Rightarrow>
                   (case map_of fromConnections ?t of
                      None \<Rightarrow> False
                    | Some fromSet \<Rightarrow>
                        (\<exists>otherConnection \<in> set fromSet.
                            circuitConnectionEquals c otherConnection)))"
    using add by (auto simp: addCircuitConnection_def Let_def split: if_splits)
  have fside: "\<forall>S. map_of fc ?t = Some S \<longrightarrow> S \<noteq> [] \<and> c \<notin> set S"
  proof (intro allI impI)
    fix S assume S: "map_of fc ?t = Some S"
    then obtain m where m: "?cc ?f = Some m" "fc = m"
      by (cases "?cc ?f") (auto simp: fc_def)
    with S ok have "S \<noteq> []" by (auto simp: circuitIndexOk_def)
    moreover from nodup m S have "c \<notin> set S"
      by (auto simp: circuitConnectionEquals_def)
    ultimately show "S \<noteq> [] \<and> c \<notin> set S" by simp
  qed
  have tside: "\<forall>S. map_of tc ?f = Some S \<longrightarrow> S \<noteq> [] \<and> c \<notin> set S"
  proof (intro allI impI)
    fix S assume S: "map_of tc ?f = Some S"
    then obtain m where m: "?cc ?t = Some m" "tc = m"
      by (cases "?cc ?t") (auto simp: tc_def)
    with S ok have ne: "S \<noteq> []" by (auto simp: circuitIndexOk_def)
    have "c \<notin> set S"
    proof
      assume "c \<in> set S"
      with ok m S obtain m' S' where "?cc ?f = Some m'" "map_of m' ?t = Some S'" "c \<in> set S'"
        unfolding circuitIndexOk_def by blast
      with nodup show False by (auto simp: circuitConnectionEquals_def)
    qed
    with ne show "S \<noteq> [] \<and> c \<notin> set S" by simp
  qed
  have fc_empty: "fc = [] \<longleftrightarrow> ?cc ?f = None"
    using ok by (auto simp: fc_def circuitIndexOk_def split: option.splits)
  have tc_empty: "tc = [] \<longleftrightarrow> ?cc ?t = None"
    using ok by (auto simp: tc_def circuitIndexOk_def split: option.splits)
  define S1 where "S1 = (case map_of fc ?t of None \<Rightarrow> [c] | Some s \<Rightarrow> luaset_add c s)"
  define S2 where "S2 = (case map_of tc ?f of None \<Rightarrow> [c] | Some s \<Rightarrow> luaset_add c s)"
  define fc' where "fc' = AList.update ?t S1 fc"
  note f1 = side_restore[OF fside, folded S1_def fc'_def]
  show ?thesis
  proof (cases "?f = ?t")
    case True
    have tcfc: "tc = fc" by (simp add: tc_def fc_def True)
    have c': "content' = content\<lparr>circuitConnections := (?cc(?t \<mapsto> fc'))\<rparr>"
      using add nodup True
      by (auto simp: addCircuitConnection_def Let_def fc_def fc'_def S1_def
          update_conv' split: if_splits)
    have r: "circuitConnections (removeCircuitConnection content' c) = ?cc"
    proof (cases "isEmpty (luaset_delete c S1)")
      case A: True
      have d: "AList.delete ?t fc' = fc" using f1(2) A by simp
      have n: "map_of fc ?t = None" using f1(3) A by simp
      show ?thesis
      proof (cases "fc = []")
        case True
        with fc_empty have "?cc ?t = None" using \<open>?f = ?t\<close> by simp
        then show ?thesis
          unfolding c' removeCircuitConnection_def Let_def
          using f1(1) A d n True \<open>?f = ?t\<close>
          by (simp add: isEmpty_def fun_upd_idem_iff)
      next
        case False
        with fc_empty have "?cc ?t = Some fc" using \<open>?f = ?t\<close>
          by (auto simp: fc_def split: option.splits)
        then show ?thesis
          unfolding c' removeCircuitConnection_def Let_def
          using f1(1) A d n False \<open>?f = ?t\<close>
          by (simp add: isEmpty_def fun_upd_idem_iff)
      qed
    next
      case B: False
      have d: "AList.update ?t (luaset_delete c S1) fc' = fc" using f1(2) B by simp
      obtain S where S: "map_of fc ?t = Some S"
        using B by (cases "map_of fc ?t") (auto simp: S1_def isEmpty_def luaset_delete_def)
      with fside have S': "S \<noteq> []" "c \<notin> set S" by auto
      from S have "fc \<noteq> []" by auto
      with fc_empty have cct: "?cc ?t = Some fc" using \<open>?f = ?t\<close>
        by (auto simp: fc_def split: option.splits)
      have e: "luaset_delete c S = S" using S' by (simp add: luaset_delete_def)
      show ?thesis
        unfolding c' removeCircuitConnection_def Let_def
        using f1(1) B d S S' cct e \<open>?f = ?t\<close>
        by (simp add: isEmpty_def fun_upd_idem_iff update_triv)
    qed
    show ?thesis
      using r by (simp add: c' removeCircuitConnection_def Let_def split: option.splits prod.splits)
  next
    case False
    define tc' where "tc' = AList.update ?f S2 tc"
    note t1 = side_restore[OF tside, folded S2_def tc'_def]
    have c': "content' = content\<lparr>circuitConnections := (?cc(?f \<mapsto> fc', ?t \<mapsto> tc'))\<rparr>"
      using add nodup False
      by (auto simp: addCircuitConnection_def Let_def fc_def tc_def fc'_def tc'_def S1_def S2_def
          update_conv' split: if_splits)
    have F: "(isEmpty (luaset_delete c S1) \<and> AList.delete ?t fc' = fc \<and>
               ((fc = [] \<and> ?cc ?f = None) \<or> (fc \<noteq> [] \<and> ?cc ?f = Some fc))) \<or>
             (\<not> isEmpty (luaset_delete c S1) \<and> AList.update ?t (luaset_delete c S1) fc' = fc \<and>
               ?cc ?f = Some fc)"
    proof (cases "isEmpty (luaset_delete c S1)")
      case True
      then show ?thesis using f1(2) fc_empty by (auto simp: fc_def split: option.splits)
    next
      case B: False
      obtain S where S: "map_of fc ?t = Some S"
        using B by (cases "map_of fc ?t") (auto simp: S1_def isEmpty_def luaset_delete_def)
      then have "fc \<noteq> []" by auto
      with fc_empty have "?cc ?f = Some fc" by (auto simp: fc_def split: option.splits)
      then show ?thesis using f1(2) B by simp
    qed
    have T: "(isEmpty (luaset_delete c S2) \<and> AList.delete ?f tc' = tc \<and>
               ((tc = [] \<and> ?cc ?t = None) \<or> (tc \<noteq> [] \<and> ?cc ?t = Some tc))) \<or>
             (\<not> isEmpty (luaset_delete c S2) \<and> AList.update ?f (luaset_delete c S2) tc' = tc \<and>
               ?cc ?t = Some tc)"
    proof (cases "isEmpty (luaset_delete c S2)")
      case True
      then show ?thesis using t1(2) tc_empty by (auto simp: tc_def split: option.splits)
    next
      case B: False
      obtain S where S: "map_of tc ?f = Some S"
        using B by (cases "map_of tc ?f") (auto simp: S2_def isEmpty_def luaset_delete_def)
      then have "tc \<noteq> []" by auto
      with tc_empty have "?cc ?t = Some tc" by (auto simp: tc_def split: option.splits)
      then show ?thesis using t1(2) B by simp
    qed
    have r: "circuitConnections (removeCircuitConnection content' c) = ?cc"
      unfolding c' removeCircuitConnection_def Let_def
      using F T f1(1) t1(1) False
      by (elim disjE conjE) (simp_all add: isEmpty_def fun_eq_iff)
    show ?thesis
      using r by (simp add: c' removeCircuitConnection_def Let_def split: option.splits prod.splits)
  qed
qed


lemma add_recorded:
  assumes add: "addCircuitConnection content c = (True, content')"
  shows "\<exists>m S. circuitConnections content' (fromEntity c) = Some m \<and>
               map_of m (toEntity c) = Some S \<and> c \<in> set S"
    and "\<exists>m S. circuitConnections content' (toEntity c) = Some m \<and>
               map_of m (fromEntity c) = Some S \<and> c \<in> set S"
    and "fromEntity c \<in> entities content'" and "toEntity c \<in> entities content'"
  using add
  by (auto simp: addCircuitConnection_def Let_def update_conv' luaset_add_def
      split: if_splits option.splits)

lemma add_duplicate:
  assumes add: "addCircuitConnection content c = (True, content')"
    and eq: "circuitConnectionEquals c2 c"
  shows "addCircuitConnection content' c2 = (False, content')"
proof -
  from eq have "(fromEntity c2 = fromEntity c \<and> toEntity c2 = toEntity c) \<or>
                (fromEntity c2 = toEntity c \<and> toEntity c2 = fromEntity c)"
    by (auto simp: circuitConnectionEquals_def)
  then obtain m S where "circuitConnections content' (fromEntity c2) = Some m"
      "map_of m (toEntity c2) = Some S" "c \<in> set S"
    using add_recorded(1,2)[OF add] by metis
  with eq show ?thesis
    by (auto simp: addCircuitConnection_def Let_def)
qed

lemma remove_absent:
  assumes ok: "circuitIndexOk content"
    and absent: "\<forall>m S. circuitConnections content (fromEntity c) = Some m \<and>
                   map_of m (toEntity c) = Some S \<longrightarrow> c \<notin> set S"
  shows "removeCircuitConnection content c = content"
proof -
  let ?f = "fromEntity c" and ?t = "toEntity c" and ?cc = "circuitConnections content"
  show ?thesis
  proof (cases "?cc ?f")
    case None
    then show ?thesis by (simp add: removeCircuitConnection_def)
  next
    case f: (Some fc)
    show ?thesis
    proof (cases "?cc ?t")
      case None
      with f show ?thesis by (simp add: removeCircuitConnection_def)
    next
      case t: (Some tc)
      have tcfc: "?t = ?f \<Longrightarrow> fc = tc" using f t by simp
      have fside: "luaset_delete c S = S \<and> \<not> isEmpty S \<and> AList.update ?t S fc = fc"
        if "map_of fc ?t = Some S" for S
      proof -
        from absent f that have "c \<notin> set S" by blast
        moreover from ok f that have "S \<noteq> []" unfolding circuitIndexOk_def by blast
        ultimately show ?thesis using that
          by (simp add: luaset_delete_def isEmpty_def update_triv)
      qed
      have tside: "luaset_delete c S = S \<and> \<not> isEmpty S \<and> AList.update ?f S tc = tc"
        if "map_of tc ?f = Some S" for S
      proof -
        have "c \<notin> set S"
        proof
          assume "c \<in> set S"
          with ok t that obtain m' S' where "?cc ?f = Some m'" "map_of m' ?t = Some S'" "c \<in> set S'"
            unfolding circuitIndexOk_def by blast
          with absent show False by blast
        qed
        moreover from ok t that have "S \<noteq> []" unfolding circuitIndexOk_def by blast
        ultimately show ?thesis using that
          by (simp add: luaset_delete_def isEmpty_def update_triv)
      qed
      have same: "(if ?t = ?f then fc else tc) = tc" using tcfc by simp
      have cf: "(?cc(?f \<mapsto> fc)) = ?cc" and ct: "(?cc(?t \<mapsto> tc)) = ?cc"
        using f t by (simp_all add: fun_upd_idem_iff)
      show ?thesis
      proof (cases "map_of fc ?t")
        case fN: None
        show ?thesis
        proof (cases "map_of tc ?f")
          case None
          with fN f t same show ?thesis
            by (simp add: removeCircuitConnection_def Let_def)
        next
          case (Some S2)
          with fN f t same tside[OF Some] ct show ?thesis
            by (simp add: removeCircuitConnection_def Let_def)
        qed
      next
        case fS: (Some S1)
        show ?thesis
        proof (cases "map_of tc ?f")
          case None
          with fS f t same fside[OF fS] cf show ?thesis
            by (simp add: removeCircuitConnection_def Let_def)
        next
          case (Some S2)
          with fS f t same fside[OF fS] tside[OF Some] cf ct show ?thesis
            by (simp add: removeCircuitConnection_def Let_def)
        qed
      qed
    qed
  qed
qed

lemma add_false:
  assumes "\<not> fst (addCircuitConnection content c)"
  shows "snd (addCircuitConnection content c) = content"
proof -
  obtain b content' where r: "addCircuitConnection content c = (b, content')"
    by (cases "addCircuitConnection content c") auto
  with assms have "addCircuitConnection content c = (False, content')" by simp
  then have "content' = content"
    by (auto simp: addCircuitConnection_def Let_def split: if_splits)
  with r show ?thesis by simp
qed

lemma add_true_iff:
  "fst (addCircuitConnection content c) \<longleftrightarrow>
     fromEntity c \<in> entities content \<and> toEntity c \<in> entities content \<and>
     \<not> (\<exists>m S c'. circuitConnections content (fromEntity c) = Some m \<and>
                  map_of m (toEntity c) = Some S \<and> c' \<in> set S \<and> circuitConnectionEquals c c')"
  by (auto simp: addCircuitConnection_def Let_def split: option.splits)

text \<open>
  C8, amended. In a store whose circuit index is well formed, for a connection \<open>c\<close> that
  is not itself recorded between its two entities, removing \<open>c\<close> after adding it
  restores the store, both entries of the double index and the emptied tables included,
  whatever the addition returned.  The addition returns true exactly when both entities
  are in the store and no recorded connection between them equals \<open>c\<close>; when it returns
  false the store is unchanged.  After an addition that returned true, adding the
  mirrored form of \<open>c\<close> (endpoints and ids swapped, any reference) returns false and
  changes nothing.
\<close>

theorem addCircuitConnection_removeCircuitConnection:
  assumes "circuitIndexOk content"
    and "\<forall>m S. circuitConnections content (fromEntity c) = Some m \<and>
               map_of m (toEntity c) = Some S \<longrightarrow> c \<notin> set S"
  shows "removeCircuitConnection (snd (addCircuitConnection content c)) c = content \<and>
         (fst (addCircuitConnection content c) \<longleftrightarrow>
            fromEntity c \<in> entities content \<and> toEntity c \<in> entities content \<and>
            \<not> (\<exists>m S c'. circuitConnections content (fromEntity c) = Some m \<and>
                  map_of m (toEntity c) = Some S \<and> c' \<in> set S \<and>
                  circuitConnectionEquals c c')) \<and>
         (\<not> fst (addCircuitConnection content c) \<longrightarrow>
            snd (addCircuitConnection content c) = content) \<and>
         (fst (addCircuitConnection content c) \<longrightarrow>
            addCircuitConnection (snd (addCircuitConnection content c))
              \<lparr> conn_ref = r, fromEntity = toEntity c, fromId = toId c,
                toEntity = fromEntity c, toId = fromId c, wire = wire c \<rparr>
             = (False, snd (addCircuitConnection content c)))"
proof (intro conjI impI)
  show "removeCircuitConnection (snd (addCircuitConnection content c)) c = content"
  proof (cases "fst (addCircuitConnection content c)")
    case True
    then obtain content' where add: "addCircuitConnection content c = (True, content')"
      by (cases "addCircuitConnection content c") auto
    from add_remove[OF assms(1) add] add show ?thesis by simp
  next
    case False
    from add_false[OF False] remove_absent[OF assms] show ?thesis by simp
  qed
next
  show "fst (addCircuitConnection content c) \<longleftrightarrow>
            fromEntity c \<in> entities content \<and> toEntity c \<in> entities content \<and>
            \<not> (\<exists>m S c'. circuitConnections content (fromEntity c) = Some m \<and>
                  map_of m (toEntity c) = Some S \<and> c' \<in> set S \<and>
                  circuitConnectionEquals c c')"
    by (rule add_true_iff)
next
  assume "\<not> fst (addCircuitConnection content c)"
  then show "snd (addCircuitConnection content c) = content" by (rule add_false)
next
  assume "fst (addCircuitConnection content c)"
  then obtain content' where add: "addCircuitConnection content c = (True, content')"
    by (cases "addCircuitConnection content c") auto
  have "circuitConnectionEquals
          \<lparr> conn_ref = r, fromEntity = toEntity c, fromId = toId c,
            toEntity = fromEntity c, toId = fromId c, wire = wire c \<rparr> c"
    by (simp add: circuitConnectionEquals_def)
  from add_duplicate[OF add this] add
  show "addCircuitConnection (snd (addCircuitConnection content c))
              \<lparr> conn_ref = r, fromEntity = toEntity c, fromId = toId c,
                toEntity = fromEntity c, toId = fromId c, wire = wire c \<rparr>
             = (False, snd (addCircuitConnection content c))"
    by simp
qed

lemma exampleContentConnected_ok: "circuitIndexOk exampleContentConnected"
  by (auto simp: circuitIndexOk_def exampleContentConnected_def exampleContent_def
      split: if_splits)

text \<open>
  In the example store, where the green wire from entity 1 to entity 2 is recorded: a
  red wire between the same connectors is added and removed again; a copy of the green
  wire with another reference is not added, and removing it leaves the recorded wire in
  place.
\<close>

theorem addCircuitConnection_removeCircuitConnection_witness:
  "circuitIndexOk exampleContentConnected \<and>
   fst (addCircuitConnection exampleContentConnected (exampleConnection\<lparr>conn_ref := 1, wire := 2\<rparr>)) \<and>
   removeCircuitConnection
     (snd (addCircuitConnection exampleContentConnected (exampleConnection\<lparr>conn_ref := 1, wire := 2\<rparr>)))
     (exampleConnection\<lparr>conn_ref := 1, wire := 2\<rparr>) = exampleContentConnected \<and>
   \<not> fst (addCircuitConnection exampleContentConnected (exampleConnection\<lparr>conn_ref := 1\<rparr>)) \<and>
   removeCircuitConnection
     (snd (addCircuitConnection exampleContentConnected (exampleConnection\<lparr>conn_ref := 1\<rparr>)))
     (exampleConnection\<lparr>conn_ref := 1\<rparr>) = exampleContentConnected"
proof -
  let ?c = "exampleConnection\<lparr>conn_ref := 1, wire := 2\<rparr>"
  let ?d = "exampleConnection\<lparr>conn_ref := 1\<rparr>"
  have a: "\<forall>m S. circuitConnections exampleContentConnected (fromEntity ?c) = Some m \<and>
               map_of m (toEntity ?c) = Some S \<longrightarrow> ?c \<notin> set S"
    by (simp add: exampleConnection_def exampleContentConnected_def exampleContent_def)
  have b: "\<forall>m S. circuitConnections exampleContentConnected (fromEntity ?d) = Some m \<and>
               map_of m (toEntity ?d) = Some S \<longrightarrow> ?d \<notin> set S"
    by (simp add: exampleConnection_def exampleContentConnected_def exampleContent_def)
  have h4: "fst (addCircuitConnection exampleContentConnected ?c)"
    by (simp add: addCircuitConnection_def Let_def exampleConnection_def
        exampleContentConnected_def exampleContent_def circuitConnectionEquals_def)
  have h5: "\<not> fst (addCircuitConnection exampleContentConnected ?d)"
    by (simp add: addCircuitConnection_def Let_def exampleConnection_def
        exampleContentConnected_def exampleContent_def circuitConnectionEquals_def)
  from addCircuitConnection_removeCircuitConnection[OF exampleContentConnected_ok a]
  have 1: "removeCircuitConnection (snd (addCircuitConnection exampleContentConnected ?c)) ?c
      = exampleContentConnected"
    by (rule conjunct1)
  from addCircuitConnection_removeCircuitConnection[OF exampleContentConnected_ok b]
  have 2: "removeCircuitConnection (snd (addCircuitConnection exampleContentConnected ?d)) ?d
      = exampleContentConnected"
    by (rule conjunct1)
  from exampleContentConnected_ok h4 1 h5 2 show ?thesis by (intro conjI)
qed

text \<open>
  C8, as the claim states it, fails for a connection that is already recorded: both
  endpoints are present, \<open>addCircuitConnection\<close> returns false and changes nothing, and
  \<open>removeCircuitConnection\<close> then removes the recorded connection, so the index is not
  the one before the two calls.
\<close>

theorem addCircuitConnection_removeCircuitConnection_counterexample:
  "fromEntity exampleConnection \<in> entities exampleContentConnected \<and>
   toEntity exampleConnection \<in> entities exampleContentConnected \<and>
   addCircuitConnection exampleContentConnected exampleConnection
     = (False, exampleContentConnected) \<and>
   circuitConnections exampleContentConnected 1 = Some [(2, [exampleConnection])] \<and>
   circuitConnections (removeCircuitConnection exampleContentConnected exampleConnection) 1 = None"
  by (simp add: addCircuitConnection_def removeCircuitConnection_def Let_def exampleConnection_def
      exampleContentConnected_def exampleContent_def circuitConnectionEquals_def
      luaset_delete_def isEmpty_def)

section \<open>Cable connections: rejected additions\<close>

lemma getConnectionPointKeyCreate_frame:
  "cableConnections (snd (getConnectionPointKeyCreate content p)) = cableConnections content"
  "circuitConnections (snd (getConnectionPointKeyCreate content p)) = circuitConnections content"
  "entities (snd (getConnectionPointKeyCreate content p)) = entities content"
  "byPosition (snd (getConnectionPointKeyCreate content p)) = byPosition content"
  by (simp_all add: getConnectionPointKeyCreate_def Let_def split: option.splits)

lemma getConnectionPointKeyCreate_other:
  "getEntityOfConnectionPoint p1 \<noteq> getEntityOfConnectionPoint p2 \<Longrightarrow>
   fst (getConnectionPointKeyCreate (snd (getConnectionPointKeyCreate content p1)) p2) =
   fst (getConnectionPointKeyCreate content p2)"
  by (simp add: getConnectionPointKeyCreate_def Let_def split: option.splits)

text \<open>
  C6, amended. \<open>addCableConnection\<close> returns \<open>Error\<close> and leaves the store as it is for a
  self-loop and for an endpoint entity that is not in the store.  For two points whose
  entities are distinct and in the store, and that are not yet recorded as connected to
  each other, it returns \<open>MaxConnectionsReached\<close> whenever either endpoint has five or more
  cable connections, and the cable graph, the circuit graph, the set of entities and the
  position index are then unchanged (the key of a power-switch connector may have been
  registered).
\<close>

theorem addCableConnection_rejects:
  "(getEntityOfConnectionPoint point1 = getEntityOfConnectionPoint point2 \<or>
    getEntityOfConnectionPoint point1 \<notin> entities content \<or>
    getEntityOfConnectionPoint point2 \<notin> entities content
    \<longrightarrow> addCableConnection content point1 point2 = Inr (Error, content)) \<and>
   (getEntityOfConnectionPoint point1 \<noteq> getEntityOfConnectionPoint point2 \<and>
    getEntityOfConnectionPoint point1 \<in> entities content \<and>
    getEntityOfConnectionPoint point2 \<in> entities content \<and>
    \<not> cableLinked content (connectionPointKeyOf content point1) (connectionPointKeyOf content point2) \<and>
    (cableDegree content (connectionPointKeyOf content point1) \<ge> MaxCableConnections \<or>
     cableDegree content (connectionPointKeyOf content point2) \<ge> MaxCableConnections)
    \<longrightarrow> (\<exists>content'. addCableConnection content point1 point2 = Inr (MaxConnectionsReached, content') \<and>
           cableConnections content' = cableConnections content \<and>
           circuitConnections content' = circuitConnections content \<and>
           entities content' = entities content \<and>
           byPosition content' = byPosition content))"
proof (intro conjI impI)
  assume "getEntityOfConnectionPoint point1 = getEntityOfConnectionPoint point2 \<or>
    getEntityOfConnectionPoint point1 \<notin> entities content \<or>
    getEntityOfConnectionPoint point2 \<notin> entities content"
  then show "addCableConnection content point1 point2 = Inr (Error, content)"
    by (auto simp: addCableConnection_def Let_def)
next
  let ?k1 = "connectionPointKeyOf content point1" and ?k2 = "connectionPointKeyOf content point2"
  assume a: "getEntityOfConnectionPoint point1 \<noteq> getEntityOfConnectionPoint point2 \<and>
    getEntityOfConnectionPoint point1 \<in> entities content \<and>
    getEntityOfConnectionPoint point2 \<in> entities content \<and>
    \<not> cableLinked content ?k1 ?k2 \<and>
    (cableDegree content ?k1 \<ge> MaxCableConnections \<or>
     cableDegree content ?k2 \<ge> MaxCableConnections)"
  obtain key1 content1 where k1: "getConnectionPointKeyCreate content point1 = (key1, content1)"
    by (cases "getConnectionPointKeyCreate content point1")
  obtain key2 content2 where k2: "getConnectionPointKeyCreate content1 point2 = (key2, content2)"
    by (cases "getConnectionPointKeyCreate content1 point2")
  have key1: "key1 = ?k1" by (simp add: connectionPointKeyOf_def k1)
  have key2: "key2 = ?k2"
    using getConnectionPointKeyCreate_other[of point1 point2 content] a
    by (simp add: connectionPointKeyOf_def k1 k2)
  have fr: "cableConnections content2 = cableConnections content"
      "circuitConnections content2 = circuitConnections content"
      "entities content2 = entities content"
      "byPosition content2 = byPosition content"
    using getConnectionPointKeyCreate_frame[of content point1]
      getConnectionPointKeyCreate_frame[of content1 point2]
    by (simp_all add: k1 k2)
  have "addCableConnection content point1 point2 = Inr (MaxConnectionsReached, content2)"
    using a fr(1)
    by (auto simp: addCableConnection_def Let_def k1 k2 key1[symmetric] key2[symmetric]
        cableLinked_def cableDegree_def MaxCableConnections_def split: option.splits)
  with fr show "\<exists>content'. addCableConnection content point1 point2 = Inr (MaxConnectionsReached, content') \<and>
           cableConnections content' = cableConnections content \<and>
           circuitConnections content' = circuitConnections content \<and>
           entities content' = entities content \<and>
           byPosition content' = byPosition content"
    by blast
qed

theorem addCableConnection_rejects_witness:
  "addCableConnection exampleCableContent (EntityPoint 1) (EntityPoint 1)
     = Inr (Error, exampleCableContent) \<and>
   addCableConnection exampleCableContent (EntityPoint 1) (EntityPoint 8)
     = Inr (Error, exampleCableContent) \<and>
   \<not> cableLinked exampleCableContent (EntityPoint 7) (EntityPoint 1) \<and>
   cableDegree exampleCableContent (EntityPoint 1) = 5 \<and>
   (\<exists>content'. addCableConnection exampleCableContent (EntityPoint 7) (EntityPoint 1)
        = Inr (MaxConnectionsReached, content') \<and>
      cableConnections content' = cableConnections exampleCableContent \<and>
      circuitConnections content' = circuitConnections exampleCableContent \<and>
      entities content' = entities exampleCableContent \<and>
      byPosition content' = byPosition exampleCableContent)"
proof -
  have e: "(1::nat) \<in> entities exampleCableContent" "(7::nat) \<in> entities exampleCableContent"
      "(8::nat) \<notin> entities exampleCableContent"
    by (simp_all add: exampleCableContent_def)
  have k: "connectionPointKeyOf exampleCableContent (EntityPoint i) = EntityPoint i" for i
    by (simp add: connectionPointKeyOf_def getConnectionPointKeyCreate_def)
  have l: "\<not> cableLinked exampleCableContent (EntityPoint 7) (EntityPoint 1)"
    by (simp add: cableLinked_def exampleCableContent_def)
  have d: "cableDegree exampleCableContent (EntityPoint 1) = 5"
    by (simp add: cableDegree_def exampleCableContent_def)
  note t = addCableConnection_rejects[of _ _ exampleCableContent]
  have 1: "addCableConnection exampleCableContent (EntityPoint 1) (EntityPoint 1)
     = Inr (Error, exampleCableContent)"
    using t[of "EntityPoint 1" "EntityPoint 1"] by simp
  have 2: "addCableConnection exampleCableContent (EntityPoint 1) (EntityPoint 8)
     = Inr (Error, exampleCableContent)"
    using t[of "EntityPoint 1" "EntityPoint 8"] e by simp
  have 3: "\<exists>content'. addCableConnection exampleCableContent (EntityPoint 7) (EntityPoint 1)
        = Inr (MaxConnectionsReached, content') \<and>
      cableConnections content' = cableConnections exampleCableContent \<and>
      circuitConnections content' = circuitConnections exampleCableContent \<and>
      entities content' = entities exampleCableContent \<and>
      byPosition content' = byPosition exampleCableContent"
    using t[of "EntityPoint 7" "EntityPoint 1"] e l d
    by (simp add: k MaxCableConnections_def)
  from 1 2 3 l d show ?thesis by (intro conjI)
qed

text \<open>
  C6, as the claim states it, fails when the endpoint with five cable connections is
  already connected to the other point: the entities are distinct and in the store, and
  \<open>addCableConnection\<close> returns \<open>AlreadyExists\<close>, which it tests before the number of
  connections.
\<close>

theorem addCableConnection_rejects_counterexample:
  "getEntityOfConnectionPoint (EntityPoint 1) \<noteq> getEntityOfConnectionPoint (EntityPoint 2) \<and>
   getEntityOfConnectionPoint (EntityPoint 1) \<in> entities exampleCableContent \<and>
   getEntityOfConnectionPoint (EntityPoint 2) \<in> entities exampleCableContent \<and>
   getCableConnections exampleCableContent (EntityPoint 1)
     = Some [EntityPoint 2, EntityPoint 3, EntityPoint 4, EntityPoint 5, EntityPoint 6] \<and>
   addCableConnection exampleCableContent (EntityPoint 1) (EntityPoint 2)
     = Inr (AlreadyExists, exampleCableContent)"
  by (simp add: addCableConnection_def getCableConnections_def getConnectionPointKey_def
      getConnectionPointKeyCreate_def exampleCableContent_def Let_def)

section \<open>Deleting an entity removes its connections\<close>

lemma removeFromOthers_apply:
  assumes idem: "\<And>d. del key (del key d) = del key d"
  shows "removeFromOthers del key others m k =
     (if k \<in> set others
      then (case m k of None \<Rightarrow> None
                      | Some d \<Rightarrow> if del key d = [] then None else Some (del key d))
      else m k)"
proof (induction others arbitrary: m)
  case Nil
  then show ?case by simp
next
  case (Cons otherKey rest)
  show ?case
    by (cases "m otherKey") (auto simp: Cons.IH isEmpty_def Let_def idem split: option.splits)
qed

lemma removeAllConnections_apply:
  assumes idem: "\<And>d. del key (del key d) = del key d"
    and nomem: "\<And>d. key \<notin> set (keysOf d) \<Longrightarrow> del key d = d"
    and sym: "\<And>a b da. m a = Some da \<Longrightarrow> b \<in> set (keysOf da) \<Longrightarrow>
                \<exists>db. m b = Some db \<and> a \<in> set (keysOf db)"
  shows "removeAllConnections keysOf del key m k =
     (if k = key then None
      else (case m k of
              None \<Rightarrow> None
            | Some d \<Rightarrow> if key \<in> set (keysOf d) \<and> del key d = [] then None
                       else Some (del key d)))"
proof (cases "m key")
  case None
  have "del key d = d" if "m k = Some d" for d
  proof -
    have "key \<notin> set (keysOf d)"
    proof
      assume "key \<in> set (keysOf d)"
      from sym[OF that this] None show False by simp
    qed
    then show ?thesis by (rule nomem)
  qed
  moreover have "key \<notin> set (keysOf d)" if "m k = Some d" for d
  proof
    assume "key \<in> set (keysOf d)"
    from sym[OF that this] None show False by simp
  qed
  ultimately show ?thesis
    using None by (auto simp: removeAllConnections_def split: option.splits)
next
  case (Some ed)
  show ?thesis
  proof (cases "k = key")
    case True
    then show ?thesis
      using Some by (simp add: removeAllConnections_def removeFromOthers_apply[of del, OF idem])
  next
    case False
    show ?thesis
    proof (cases "m k")
      case None
      then show ?thesis
        using Some False
        by (simp add: removeAllConnections_def removeFromOthers_apply[of del, OF idem])
    next
      case d: (Some d)
      have iff: "k \<in> set (keysOf ed) \<longleftrightarrow> key \<in> set (keysOf d)"
        using sym[OF Some, of k] sym[OF d, of key] Some d by auto
      show ?thesis
      proof (cases "key \<in> set (keysOf d)")
        case True
        then show ?thesis
          using Some False d iff
          by (simp add: removeAllConnections_def removeFromOthers_apply[of del, OF idem])
      next
        case nm: False
        then show ?thesis
          using Some False d iff nomem[OF nm]
          by (simp add: removeAllConnections_def removeFromOthers_apply[of del, OF idem])
      qed
    qed
  qed
qed


lemma cable_remove_apply:
  assumes "graphSym m"
  shows "removeAllConnections (\<lambda>d. d) luaset_delete key m k =
     (if k = key then None
      else (case m k of
              None \<Rightarrow> None
            | Some d \<Rightarrow> if key \<in> set d \<and> removeAll key d = [] then None
                       else Some (removeAll key d)))"
proof -
  have sym: "\<And>a b da. m a = Some da \<Longrightarrow> b \<in> set da \<Longrightarrow> \<exists>db. m b = Some db \<and> a \<in> set db"
    using assms unfolding graphSym_def by blast
  show ?thesis
    using removeAllConnections_apply[of luaset_delete key "\<lambda>d. d" m k] sym
    by (auto simp: luaset_delete_def split: option.splits)
qed

lemma cable_remove_props:
  fixes m :: "'k \<rightharpoonup> 'k list" and key :: 'k
  assumes "graphSym m"
  defines "m' \<equiv> removeAllConnections (\<lambda>d. d) luaset_delete key m"
  shows "graphSym m'" and "graphShrinks m' m" and "graphAbsent key m'"
proof -
  note ap = cable_remove_apply[OF assms(1), of key, folded m'_def]
  have sym: "\<And>a b da. m a = Some da \<Longrightarrow> b \<in> set da \<Longrightarrow> \<exists>db. m b = Some db \<and> a \<in> set db"
    using assms(1) unfolding graphSym_def by blast
  have some: "m' k = Some d' \<Longrightarrow> k \<noteq> key \<and> (\<exists>d. m k = Some d \<and> d' = removeAll key d)" for k d'
    unfolding ap by (auto split: option.splits if_splits)
  show "graphShrinks m' m"
    unfolding graphShrinks_def using some by fastforce
  show "graphAbsent key m'"
    unfolding graphAbsent_def
  proof (intro conjI allI impI)
    show "m' key = None" by (simp add: ap)
    fix k d assume "m' k = Some d"
    from some[OF this] show "key \<notin> set d" by auto
  qed
  show "graphSym m'"
    unfolding graphSym_def
  proof (intro allI impI, elim conjE)
    fix a b da assume a: "m' a = Some da" and b: "b \<in> set da"
    from some[OF a] obtain d where d: "a \<noteq> key" "m a = Some d" "da = removeAll key d" by blast
    with b have bk: "b \<noteq> key" "b \<in> set d" by auto
    from sym[OF d(2) bk(2)] obtain db where db: "m b = Some db" "a \<in> set db" by blast
    have "a \<in> set (removeAll key db)" using db d(1) by simp
    then have "removeAll key db \<noteq> []" by (metis empty_iff empty_set)
    then have "m' b = Some (removeAll key db)"
      unfolding ap using bk(1) db by simp
    with \<open>a \<in> set (removeAll key db)\<close> show "\<exists>db. m' b = Some db \<and> a \<in> set db" by blast
  qed
qed

lemma graphShrinks_trans:
  assumes "graphShrinks m2 m1" and "graphShrinks m1 m"
  shows "graphShrinks m2 m"
  unfolding graphShrinks_def
proof (intro allI impI)
  fix k d2 assume "m2 k = Some d2"
  with assms(1) obtain d1 where d1: "m1 k = Some d1" "set d2 \<subseteq> set d1"
    unfolding graphShrinks_def by blast
  with assms(2) obtain d where "m k = Some d" "set d1 \<subseteq> set d"
    unfolding graphShrinks_def by blast
  with d1 show "\<exists>d. m k = Some d \<and> set d2 \<subseteq> set d" by auto
qed

lemma graphShrinks_refl: "graphShrinks m m"
  unfolding graphShrinks_def by auto

lemma graphAbsent_shrinks:
  assumes "graphAbsent key m" and "graphShrinks m' m"
  shows "graphAbsent key m'"
  unfolding graphAbsent_def
proof (intro conjI allI impI)
  show "m' key = None"
  proof (cases "m' key")
    case (Some d')
    with assms(2) obtain d where "m key = Some d" unfolding graphShrinks_def by blast
    with assms(1) show ?thesis unfolding graphAbsent_def by simp
  qed simp
  fix k d' assume "m' k = Some d'"
  with assms(2) obtain d where "m k = Some d" "set d' \<subseteq> set d"
    unfolding graphShrinks_def by blast
  with assms(1) show "key \<notin> set d'" unfolding graphAbsent_def by auto
qed

lemma cable_fold_props:
  fixes m :: "'k \<rightharpoonup> 'k list" and pts :: "('c \<times> 'k) list"
  assumes "graphSym m"
  shows "graphSym (fold (\<lambda>(cid, point) cable.
                        removeAllConnections (\<lambda>d. d) luaset_delete point cable) pts m) \<and>
         graphShrinks (fold (\<lambda>(cid, point) cable.
                        removeAllConnections (\<lambda>d. d) luaset_delete point cable) pts m) m \<and>
         (\<forall>x \<in> set pts. graphAbsent (snd x) (fold (\<lambda>(cid, point) cable.
                        removeAllConnections (\<lambda>d. d) luaset_delete point cable) pts m))"
  using assms
proof (induction pts arbitrary: m)
  case Nil
  then show ?case by (simp add: graphShrinks_refl)
next
  case (Cons x pts)
  obtain cid p where x: "x = (cid, p)" by (cases x)
  let ?F = "fold (\<lambda>(cid, point) cable.
                        removeAllConnections (\<lambda>d. d) luaset_delete point cable)"
  let ?m1 = "removeAllConnections (\<lambda>d. d) luaset_delete p m"
  note p1 = cable_remove_props[OF Cons.prems, of p]
  from Cons.IH[OF p1(1)] have IH1: "graphSym (?F pts ?m1)"
    and IH2: "graphShrinks (?F pts ?m1) ?m1"
    and IH3: "\<forall>x \<in> set pts. graphAbsent (snd x) (?F pts ?m1)"
    by simp_all
  have a: "graphAbsent p (?F pts ?m1)"
    by (rule graphAbsent_shrinks[OF p1(3) IH2])
  have b: "graphShrinks (?F pts ?m1) m"
    by (rule graphShrinks_trans[OF IH2 p1(2)])
  have e: "?F (x # pts) m = ?F pts ?m1" by (simp add: x)
  show ?case
    unfolding e using IH1 IH3 a b by (simp add: x)
qed


lemma assertCorrect_circuitD:
  assumes "assertCorrect content" and "circuitConnections content entity = Some points"
    and "(otherEntity, connections) \<in> set points"
  shows "entity \<in> entities content" and "otherEntity \<in> entities content"
    and "\<forall>connection \<in> set connections.
               \<exists>m S. circuitConnections content otherEntity = Some m \<and>
                     map_of m entity = Some S \<and> connection \<in> set S"
proof -
  from assms(1) have "\<forall>entity points. circuitConnections content entity = Some points \<longrightarrow>
         entity \<in> entities content \<and>
         (\<forall>(otherEntity, connections) \<in> set points.
            otherEntity \<in> entities content \<and>
            (\<forall>connection \<in> set connections.
               \<exists>m S. circuitConnections content otherEntity = Some m \<and>
                     map_of m entity = Some S \<and> connection \<in> set S))"
    unfolding assertCorrect_def by (rule conjunct1)
  with assms(2) have e: "entity \<in> entities content"
    and b: "\<forall>(otherEntity, connections) \<in> set points.
            otherEntity \<in> entities content \<and>
            (\<forall>connection \<in> set connections.
               \<exists>m S. circuitConnections content otherEntity = Some m \<and>
                     map_of m entity = Some S \<and> connection \<in> set S)"
    by blast+
  from e show "entity \<in> entities content" .
  from bspec[OF b assms(3)] show "otherEntity \<in> entities content"
    and "\<forall>connection \<in> set connections.
               \<exists>m S. circuitConnections content otherEntity = Some m \<and>
                     map_of m entity = Some S \<and> connection \<in> set S"
    by simp_all
qed

lemma assertCorrect_cableD:
  assumes "assertCorrect content" and "cableConnections content point = Some connections"
  shows "isPowerSwitchConnectionPoint point \<longrightarrow> getConnectionPointKey content point \<noteq> None"
    and "getEntityOfConnectionPoint point \<in> entities content"
    and "\<forall>otherPoint \<in> set connections.
            (isPowerSwitchConnectionPoint otherPoint \<longrightarrow>
               getConnectionPointKey content otherPoint \<noteq> None) \<and>
            getEntityOfConnectionPoint otherPoint \<in> entities content \<and>
            (\<exists>d. cableConnections content otherPoint = Some d \<and> point \<in> set d)"
proof -
  from assms(1) have "\<forall>point connections. cableConnections content point = Some connections \<longrightarrow>
         (isPowerSwitchConnectionPoint point \<longrightarrow> getConnectionPointKey content point \<noteq> None) \<and>
         getEntityOfConnectionPoint point \<in> entities content \<and>
         (\<forall>otherPoint \<in> set connections.
            (isPowerSwitchConnectionPoint otherPoint \<longrightarrow>
               getConnectionPointKey content otherPoint \<noteq> None) \<and>
            getEntityOfConnectionPoint otherPoint \<in> entities content \<and>
            (\<exists>d. cableConnections content otherPoint = Some d \<and> point \<in> set d))"
    unfolding assertCorrect_def by (elim conjE)
  with assms(2) show
    "isPowerSwitchConnectionPoint point \<longrightarrow> getConnectionPointKey content point \<noteq> None"
    and "getEntityOfConnectionPoint point \<in> entities content"
    and "\<forall>otherPoint \<in> set connections.
            (isPowerSwitchConnectionPoint otherPoint \<longrightarrow>
               getConnectionPointKey content otherPoint \<noteq> None) \<and>
            getEntityOfConnectionPoint otherPoint \<in> entities content \<and>
            (\<exists>d. cableConnections content otherPoint = Some d \<and> point \<in> set d)"
    by blast+
qed

lemma assertCorrect_extraD:
  assumes "assertCorrect content" and "extraCableConnectionPoints content entity = Some points"
    and "(cid, point) \<in> set points"
  shows "entity \<in> entities content" and "isPowerSwitchConnectionPoint point"
    and "getConnectionPointKey content point \<noteq> None" and "connectionId point = cid"
proof -
  from assms(1) have "\<forall>entity points. extraCableConnectionPoints content entity = Some points \<longrightarrow>
         entity \<in> entities content \<and>
         (\<forall>(cid, point) \<in> set points.
            isPowerSwitchConnectionPoint point \<and>
            getConnectionPointKey content point \<noteq> None \<and>
            connectionId point = cid)"
    unfolding assertCorrect_def by (elim conjE)
  with assms(2) have e: "entity \<in> entities content"
    and b: "\<forall>(cid, point) \<in> set points.
            isPowerSwitchConnectionPoint point \<and>
            getConnectionPointKey content point \<noteq> None \<and>
            connectionId point = cid"
    by blast+
  from e show "entity \<in> entities content" .
  from bspec[OF b assms(3)] show "isPowerSwitchConnectionPoint point"
    and "getConnectionPointKey content point \<noteq> None" and "connectionId point = cid"
    by simp_all
qed

lemma assertCorrect_circuit_keyD:
  assumes "assertCorrect content" and "circuitConnections content entity = Some points"
  shows "entity \<in> entities content"
proof -
  from assms(1) have "\<forall>entity points. circuitConnections content entity = Some points \<longrightarrow>
         entity \<in> entities content \<and>
         (\<forall>(otherEntity, connections) \<in> set points.
            otherEntity \<in> entities content \<and>
            (\<forall>connection \<in> set connections.
               \<exists>m S. circuitConnections content otherEntity = Some m \<and>
                     map_of m entity = Some S \<and> connection \<in> set S))"
    unfolding assertCorrect_def by (rule conjunct1)
  with assms(2) show ?thesis by blast
qed

lemma assertCorrect_extra_keyD:
  assumes "assertCorrect content" and "extraCableConnectionPoints content entity = Some points"
  shows "entity \<in> entities content"
proof -
  from assms(1) have "\<forall>entity points. extraCableConnectionPoints content entity = Some points \<longrightarrow>
         entity \<in> entities content \<and>
         (\<forall>(cid, point) \<in> set points.
            isPowerSwitchConnectionPoint point \<and>
            getConnectionPointKey content point \<noteq> None \<and>
            connectionId point = cid)"
    unfolding assertCorrect_def by (elim conjE)
  with assms(2) show ?thesis by blast
qed

lemma representationOk_circuitD:
  assumes "representationOk content" and "circuitConnections content entity = Some points"
    and "(otherEntity, connections) \<in> set points"
  shows "connections \<noteq> []"
    and "\<forall>c \<in> set connections.
            (fromEntity c = entity \<and> toEntity c = otherEntity) \<or>
            (fromEntity c = otherEntity \<and> toEntity c = entity)"
  using assms unfolding representationOk_def by blast+

lemma representationOk_extraD:
  assumes "representationOk content" and "extraCableConnectionPoints content entity = Some points"
    and "(cid, point) \<in> set points"
  shows "getEntityOfConnectionPoint point = entity"
  using assms unfolding representationOk_def by blast

lemma assertCorrect_circuit_keysym:
  assumes ac: "assertCorrect content" and ro: "representationOk content"
    and a: "circuitConnections content a = Some da" and b: "b \<in> set (map fst da)"
  shows "\<exists>db. circuitConnections content b = Some db \<and> a \<in> set (map fst db)"
proof -
  from b obtain S where S: "(b, S) \<in> set da" by auto
  from representationOk_circuitD(1)[OF ro a S] obtain c where c: "c \<in> set S" by (cases S) auto
  from assertCorrect_circuitD(3)[OF ac a S] c
  obtain m S' where m: "circuitConnections content b = Some m" "map_of m a = Some S'"
    by blast
  from m(2) have "a \<in> set (map fst m)"
    by (metis domI dom_map_of_conv_image_fst set_map)
  with m(1) show ?thesis by blast
qed
lemma circuit_remove_apply:
  assumes ac: "assertCorrect content" and ro: "representationOk content"
  shows "removeAllConnections (map fst) AList.delete entity (circuitConnections content) k =
     (if k = entity then None
      else (case circuitConnections content k of
              None \<Rightarrow> None
            | Some m \<Rightarrow> if entity \<in> set (map fst m) \<and> AList.delete entity m = [] then None
                       else Some (AList.delete entity m)))"
proof (rule removeAllConnections_apply)
  show "\<And>d. AList.delete entity (AList.delete entity d) = AList.delete entity d"
    by (rule delete_idem)
  show "\<And>d. entity \<notin> set (map fst d) \<Longrightarrow> AList.delete entity d = d"
    by simp
  show "\<And>a b da. circuitConnections content a = Some da \<Longrightarrow> b \<in> set (map fst da) \<Longrightarrow>
        \<exists>db. circuitConnections content b = Some db \<and> a \<in> set (map fst db)"
    by (rule assertCorrect_circuit_keysym[OF ac ro])
qed

lemma assertCorrect_cable_sym:
  assumes "assertCorrect content"
  shows "graphSym (cableConnections content)"
  unfolding graphSym_def using assertCorrect_cableD(3)[OF assms] by blast

lemma delete_components:
  assumes "entity \<in> entities content"
  shows "entities (delete h content entity) = entities content - {entity}"
    and "circuitConnections (delete h content entity) =
           removeAllConnections (map fst) AList.delete entity (circuitConnections content)"
    and "extraCableConnectionPoints (delete h content entity) =
           (extraCableConnectionPoints content)(entity := None)"
    and "cableConnections (delete h content entity) =
           fold (\<lambda>(cid, point) cable. removeAllConnections (\<lambda>d. d) luaset_delete point cable)
             (case extraCableConnectionPoints content entity of None \<Rightarrow> [] | Some pts \<Rightarrow> pts)
             (removeAllConnections (\<lambda>d. d) luaset_delete (EntityPoint entity)
                (cableConnections content))"
  using assms by (auto simp: delete_def Let_def split: option.splits)


lemma assertCorrectI:
  assumes "\<And>entity points otherEntity connections.
      circuitConnections content entity = Some points \<Longrightarrow>
      (otherEntity, connections) \<in> set points \<Longrightarrow>
      otherEntity \<in> entities content \<and>
      (\<forall>connection \<in> set connections.
         \<exists>m S. circuitConnections content otherEntity = Some m \<and>
               map_of m entity = Some S \<and> connection \<in> set S)"
    and "\<And>entity points. circuitConnections content entity = Some points \<Longrightarrow>
      entity \<in> entities content"
    and "\<And>point connections. cableConnections content point = Some connections \<Longrightarrow>
      (isPowerSwitchConnectionPoint point \<longrightarrow> getConnectionPointKey content point \<noteq> None) \<and>
      getEntityOfConnectionPoint point \<in> entities content"
    and "\<And>point connections otherPoint.
      cableConnections content point = Some connections \<Longrightarrow> otherPoint \<in> set connections \<Longrightarrow>
      (isPowerSwitchConnectionPoint otherPoint \<longrightarrow>
         getConnectionPointKey content otherPoint \<noteq> None) \<and>
      getEntityOfConnectionPoint otherPoint \<in> entities content \<and>
      (\<exists>d. cableConnections content otherPoint = Some d \<and> point \<in> set d)"
    and "\<And>entity points. extraCableConnectionPoints content entity = Some points \<Longrightarrow>
      entity \<in> entities content"
    and "\<And>entity points cid point.
      extraCableConnectionPoints content entity = Some points \<Longrightarrow> (cid, point) \<in> set points \<Longrightarrow>
      isPowerSwitchConnectionPoint point \<and> getConnectionPointKey content point \<noteq> None \<and>
      connectionId point = cid"
  shows "assertCorrect content"
  unfolding assertCorrect_def
proof (intro conjI allI impI ballI)
  fix entity points assume "circuitConnections content entity = Some points"
  then show "entity \<in> entities content" by (rule assms(2))
next
  fix entity points x
  assume a: "circuitConnections content entity = Some points" and x: "x \<in> set points"
  obtain otherEntity connections where xe: "x = (otherEntity, connections)" by (cases x)
  from assms(1)[OF a x[unfolded xe]]
  show "case x of (otherEntity, connections) \<Rightarrow>
          otherEntity \<in> entities content \<and>
          (\<forall>connection \<in> set connections.
             \<exists>m S. circuitConnections content otherEntity = Some m \<and>
                   map_of m entity = Some S \<and> connection \<in> set S)"
    by (simp add: xe)
next
  fix point connections assume a: "cableConnections content point = Some connections"
  from assms(3)[OF a] show "getEntityOfConnectionPoint point \<in> entities content" by simp
  assume "isPowerSwitchConnectionPoint point"
  with assms(3)[OF a] show "getConnectionPointKey content point \<noteq> None" by simp
next
  fix point connections otherPoint
  assume a: "cableConnections content point = Some connections" and o: "otherPoint \<in> set connections"
  from assms(4)[OF a o] show "getEntityOfConnectionPoint otherPoint \<in> entities content"
    and "\<exists>d. cableConnections content otherPoint = Some d \<and> point \<in> set d" by simp_all
  assume "isPowerSwitchConnectionPoint otherPoint"
  with assms(4)[OF a o] show "getConnectionPointKey content otherPoint \<noteq> None" by simp
next
  fix entity points assume "extraCableConnectionPoints content entity = Some points"
  then show "entity \<in> entities content" by (rule assms(5))
next
  fix entity points x
  assume a: "extraCableConnectionPoints content entity = Some points" and x: "x \<in> set points"
  obtain cid point where xe: "x = (cid, point)" by (cases x)
  from assms(6)[OF a x[unfolded xe]]
  show "case x of (cid, point) \<Rightarrow>
          isPowerSwitchConnectionPoint point \<and> getConnectionPointKey content point \<noteq> None \<and>
          connectionId point = cid"
    by (simp add: xe)
qed


lemma representationOkI:
  assumes "\<And>entity points otherEntity connections.
      circuitConnections content entity = Some points \<Longrightarrow>
      (otherEntity, connections) \<in> set points \<Longrightarrow>
      connections \<noteq> [] \<and>
      (\<forall>c \<in> set connections.
         (fromEntity c = entity \<and> toEntity c = otherEntity) \<or>
         (fromEntity c = otherEntity \<and> toEntity c = entity))"
    and "\<And>entity points cid point.
      extraCableConnectionPoints content entity = Some points \<Longrightarrow> (cid, point) \<in> set points \<Longrightarrow>
      getEntityOfConnectionPoint point = entity"
  shows "representationOk content"
  unfolding representationOk_def
proof (rule conjI)
  show "\<forall>entity points otherEntity connections.
         circuitConnections content entity = Some points \<and>
         (otherEntity, connections) \<in> set points \<longrightarrow>
         connections \<noteq> [] \<and>
         (\<forall>c \<in> set connections.
            (fromEntity c = entity \<and> toEntity c = otherEntity) \<or>
            (fromEntity c = otherEntity \<and> toEntity c = entity))"
    using assms(1) by blast
  show "\<forall>entity points cid point.
         extraCableConnectionPoints content entity = Some points \<and> (cid, point) \<in> set points \<longrightarrow>
         getEntityOfConnectionPoint point = entity"
    using assms(2) by blast
qed

lemma getConnectionPointKey_cong:
  "extraCableConnectionPoints c1 (getEntityOfConnectionPoint p) =
   extraCableConnectionPoints c2 (getEntityOfConnectionPoint p) \<Longrightarrow>
   getConnectionPointKey c1 p = getConnectionPointKey c2 p"
  by (simp add: getConnectionPointKey_def)

lemma delete_cable_facts:
  assumes ac: "assertCorrect content" and ro: "representationOk content"
    and mem: "entity \<in> entities content"
  shows "graphSym (cableConnections (delete h content entity))"
    and "graphShrinks (cableConnections (delete h content entity)) (cableConnections content)"
    and "\<And>p d. cableConnections (delete h content entity) p = Some d \<Longrightarrow>
           getEntityOfConnectionPoint p \<noteq> entity"
proof -
  define pts where
    "pts = (case extraCableConnectionPoints content entity of None \<Rightarrow> [] | Some ps \<Rightarrow> ps)"
  let ?cable0 = "cableConnections content"
  let ?cable1 = "removeAllConnections (\<lambda>d. d) luaset_delete (EntityPoint entity) ?cable0"
  let ?cable' = "cableConnections (delete h content entity)"
  have c': "?cable' = fold (\<lambda>(cid, point) cable.
               removeAllConnections (\<lambda>d. d) luaset_delete point cable) pts ?cable1"
    unfolding pts_def by (rule delete_components(4)[OF mem])
  have sym0: "graphSym ?cable0" by (rule assertCorrect_cable_sym[OF ac])
  note p1 = cable_remove_props[OF sym0, of "EntityPoint entity"]
  note fp = cable_fold_props[OF p1(1), of pts, folded c']
  from fp show sym': "graphSym ?cable'" by simp
  from fp have shr1: "graphShrinks ?cable' ?cable1" by simp
  show shr: "graphShrinks ?cable' ?cable0"
    by (rule graphShrinks_trans[OF shr1 p1(2)])
  have absE: "graphAbsent (EntityPoint entity) ?cable'"
    by (rule graphAbsent_shrinks[OF p1(3) shr1])
  from fp have absP: "\<And>x. x \<in> set pts \<Longrightarrow> graphAbsent (snd x) ?cable'" by simp
  fix p d assume pd: "?cable' p = Some d"
  show "getEntityOfConnectionPoint p \<noteq> entity"
  proof
    assume e: "getEntityOfConnectionPoint p = entity"
    from shr pd obtain d0 where d0: "?cable0 p = Some d0"
      unfolding graphShrinks_def by blast
    show False
    proof (cases p)
      case (EntityPoint e')
      with e absE pd show False by (simp add: graphAbsent_def)
    next
      case (PowerSwitchConnectionPoint e' cid)
      with e have p: "p = PowerSwitchConnectionPoint entity cid" by simp
      from assertCorrect_cableD(1)[OF ac d0] p
      have "getConnectionPointKey content p \<noteq> None" by simp
      then obtain ps q where ps: "extraCableConnectionPoints content entity = Some ps"
        and q: "map_of ps cid = Some q"
        by (auto simp: getConnectionPointKey_def p split: option.splits)
      from q have qm: "(cid, q) \<in> set ps" by (rule map_of_SomeD)
      from assertCorrect_extraD(2,4)[OF ac ps qm] representationOk_extraD[OF ro ps qm]
      have "q = p" by (cases q) (auto simp: p)
      moreover have "pts = ps" by (simp add: pts_def ps)
      ultimately have "graphAbsent p ?cable'" using absP[of "(cid, q)"] qm by simp
      with pd show False by (simp add: graphAbsent_def)
    qed
  qed
qed

lemma delete_invariants:
  assumes ac: "assertCorrect content" and ro: "representationOk content"
    and mem: "entity \<in> entities content"
  shows "assertCorrect (delete h content entity)"
    and "representationOk (delete h content entity)"
proof -
  let ?c' = "delete h content entity"
  note comp = delete_components[OF mem, of h]
  note cf = delete_cable_facts[OF ac ro mem, of h]
  note cca = circuit_remove_apply[OF ac ro, of entity, folded comp(2)]
  have ccSome: "\<exists>m. k \<noteq> entity \<and> circuitConnections content k = Some m \<and>
                   pts' = AList.delete entity m"
    if "circuitConnections ?c' k = Some pts'" for k pts'
    using that unfolding cca by (auto split: if_splits option.splits)
  have inSet: "otherEntity \<noteq> entity \<and> (otherEntity, connections) \<in> set m"
    if "(otherEntity, connections) \<in> set (AList.delete entity m)"
    for otherEntity :: entity_id and connections :: "AsmCircuitConnection list" and m
    using that by (auto simp: AList.delete_eq)
  have key: "getConnectionPointKey ?c' p = getConnectionPointKey content p"
    if "getEntityOfConnectionPoint p \<noteq> entity" for p
    by (rule getConnectionPointKey_cong) (simp add: comp(3) that)
  have cableOld: "\<exists>d0. cableConnections content p = Some d0 \<and> set d \<subseteq> set d0"
    if "cableConnections ?c' p = Some d" for p d
    using cf(2) that unfolding graphShrinks_def by blast
  show "assertCorrect ?c'"
  proof (rule assertCorrectI)
    fix k points otherEntity connections
    assume a: "circuitConnections ?c' k = Some points" and x: "(otherEntity, connections) \<in> set points"
    from ccSome[OF a] obtain m where m: "k \<noteq> entity" "circuitConnections content k = Some m"
      "points = AList.delete entity m" by blast
    from x have "(otherEntity, connections) \<in> set (AList.delete entity m)" unfolding m(3) .
    from inSet[OF this] have o: "otherEntity \<noteq> entity" "(otherEntity, connections) \<in> set m"
      by simp_all
    from assertCorrect_circuitD(2)[OF ac m(2) o(2)] o(1)
    have 1: "otherEntity \<in> entities ?c'" by (simp add: comp(1))
    have 2: "\<exists>m S. circuitConnections ?c' otherEntity = Some m \<and>
               map_of m k = Some S \<and> connection \<in> set S" if "connection \<in> set connections"
      for connection
    proof -
      from assertCorrect_circuitD(3)[OF ac m(2) o(2)] that
      obtain m2 S where m2: "circuitConnections content otherEntity = Some m2"
        "map_of m2 k = Some S" "connection \<in> set S" by blast
      from m2(2) m(1) have l: "map_of (AList.delete entity m2) k = Some S" by simp
      then have "AList.delete entity m2 \<noteq> []" by auto
      with m2(1) o(1) have "circuitConnections ?c' otherEntity = Some (AList.delete entity m2)"
        unfolding cca by simp
      with l m2(3) show ?thesis by blast
    qed
    from 1 2 show "otherEntity \<in> entities ?c' \<and>
      (\<forall>connection \<in> set connections.
         \<exists>m S. circuitConnections ?c' otherEntity = Some m \<and>
               map_of m k = Some S \<and> connection \<in> set S)" by blast
  next
    fix k points assume a: "circuitConnections ?c' k = Some points"
    from ccSome[OF a] obtain m where m: "k \<noteq> entity" "circuitConnections content k = Some m"
      by blast
    from assertCorrect_circuit_keyD[OF ac m(2)] have "k \<in> entities content" .
    with m(1) show "k \<in> entities ?c'" by (simp add: comp(1))
  next
    fix point connections assume a: "cableConnections ?c' point = Some connections"
    from cf(3)[OF a] have ne: "getEntityOfConnectionPoint point \<noteq> entity" .
    from cableOld[OF a] obtain d0 where d0: "cableConnections content point = Some d0" by blast
    from assertCorrect_cableD(1,2)[OF ac d0] ne
    show "(isPowerSwitchConnectionPoint point \<longrightarrow> getConnectionPointKey ?c' point \<noteq> None) \<and>
      getEntityOfConnectionPoint point \<in> entities ?c'"
      by (simp add: key[OF ne] comp(1))
  next
    fix point connections otherPoint
    assume a: "cableConnections ?c' point = Some connections" and o: "otherPoint \<in> set connections"
    from cf(1) a o obtain d where d: "cableConnections ?c' otherPoint = Some d" "point \<in> set d"
      unfolding graphSym_def by blast
    from cf(3)[OF d(1)] have ne: "getEntityOfConnectionPoint otherPoint \<noteq> entity" .
    from cableOld[OF d(1)] obtain d0 where d0: "cableConnections content otherPoint = Some d0"
      by blast
    from assertCorrect_cableD(1,2)[OF ac d0] ne d
    show "(isPowerSwitchConnectionPoint otherPoint \<longrightarrow>
         getConnectionPointKey ?c' otherPoint \<noteq> None) \<and>
      getEntityOfConnectionPoint otherPoint \<in> entities ?c' \<and>
      (\<exists>d. cableConnections ?c' otherPoint = Some d \<and> point \<in> set d)"
      by (simp add: key[OF ne] comp(1))
  next
    fix k points assume a: "extraCableConnectionPoints ?c' k = Some points"
    then have k: "k \<noteq> entity" "extraCableConnectionPoints content k = Some points"
      by (auto simp: comp(3) split: if_splits)
    from assertCorrect_extra_keyD[OF ac k(2)] have "k \<in> entities content" .
    with k(1) show "k \<in> entities ?c'" by (simp add: comp(1))
  next
    fix k points cid point
    assume a: "extraCableConnectionPoints ?c' k = Some points" and x: "(cid, point) \<in> set points"
    from a have k: "k \<noteq> entity" "extraCableConnectionPoints content k = Some points"
      by (auto simp: comp(3) split: if_splits)
    from representationOk_extraD[OF ro k(2) x] k(1)
    have ne: "getEntityOfConnectionPoint point \<noteq> entity" by simp
    from assertCorrect_extraD(2,3,4)[OF ac k(2) x]
    show "isPowerSwitchConnectionPoint point \<and> getConnectionPointKey ?c' point \<noteq> None \<and>
      connectionId point = cid"
      by (simp add: key[OF ne])
  qed
  show "representationOk ?c'"
  proof (rule representationOkI)
    fix k points otherEntity connections
    assume a: "circuitConnections ?c' k = Some points" and x: "(otherEntity, connections) \<in> set points"
    from ccSome[OF a] obtain m where m: "k \<noteq> entity" "circuitConnections content k = Some m"
      "points = AList.delete entity m" by blast
    from x have "(otherEntity, connections) \<in> set (AList.delete entity m)" unfolding m(3) .
    from inSet[OF this] have o: "(otherEntity, connections) \<in> set m" by simp
    from representationOk_circuitD[OF ro m(2) o]
    show "connections \<noteq> [] \<and>
         (\<forall>c \<in> set connections.
            (fromEntity c = k \<and> toEntity c = otherEntity) \<or>
            (fromEntity c = otherEntity \<and> toEntity c = k))" by simp
  next
    fix k points cid point
    assume a: "extraCableConnectionPoints ?c' k = Some points" and x: "(cid, point) \<in> set points"
    from a have k: "extraCableConnectionPoints content k = Some points"
      by (auto simp: comp(3) split: if_splits)
    from representationOk_extraD[OF ro k x]
    show "getEntityOfConnectionPoint point = k" .
  qed
qed


lemma invariants_noReferenceTo:
  assumes ac: "assertCorrect content" and ro: "representationOk content"
    and e: "entity \<notin> entities content"
  shows "noReferenceTo entity content"
  unfolding noReferenceTo_def
proof (intro conjI allI impI ballI; (elim conjE)?)
  show "circuitConnections content entity = None"
  proof (cases "circuitConnections content entity")
    case (Some m)
    from assertCorrect_circuit_keyD[OF ac Some] e show ?thesis by simp
  qed simp
  show "extraCableConnectionPoints content entity = None"
  proof (cases "extraCableConnectionPoints content entity")
    case (Some m)
    from assertCorrect_extra_keyD[OF ac Some] e show ?thesis by simp
  qed simp
next
  fix k points otherEntity connections
  assume a: "circuitConnections content k = Some points"
    and x: "(otherEntity, connections) \<in> set points"
  from assertCorrect_circuitD(2)[OF ac a x] e show o: "otherEntity \<noteq> entity" by auto
  from assertCorrect_circuit_keyD[OF ac a] e have k: "k \<noteq> entity" by auto
  fix c assume "c \<in> set connections"
  with representationOk_circuitD(2)[OF ro a x] o k
  show "fromEntity c \<noteq> entity" and "toEntity c \<noteq> entity" by auto
next
  fix point connections assume a: "cableConnections content point = Some connections"
  from assertCorrect_cableD(2)[OF ac a] e show "getEntityOfConnectionPoint point \<noteq> entity"
    by auto
  fix otherPoint assume "otherPoint \<in> set connections"
  with assertCorrect_cableD(3)[OF ac a] e show "getEntityOfConnectionPoint otherPoint \<noteq> entity"
    by auto
next
  fix k points cid point
  assume a: "extraCableConnectionPoints content k = Some points" and x: "(cid, point) \<in> set points"
  from representationOk_extraD[OF ro a x] assertCorrect_extra_keyD[OF ac a] e
  show "getEntityOfConnectionPoint point \<noteq> entity" by auto
qed

text \<open>
  C10. In a store that satisfies the assertions of \<open>_assertCorrect\<close> and the three facts
  about the representation, after \<open>delete(entity)\<close> the entity is not in the store, and no
  entry of the circuit index, of the cable graph or of the key registry refers to it or
  to one of its power-switch connectors: both sides of every edge at the entity are
  gone.  The assertions and the representation facts hold again, so the graphs hold no
  edge whose endpoint entity is absent from the store.
\<close>

theorem delete_no_dangling:
  assumes "assertCorrect content" and "representationOk content"
  shows "entity \<notin> entities (delete h content entity) \<and>
         noReferenceTo entity (delete h content entity) \<and>
         assertCorrect (delete h content entity) \<and>
         representationOk (delete h content entity)"
proof (cases "entity \<in> entities content")
  case True
  note inv = delete_invariants[OF assms True, of h]
  have e: "entity \<notin> entities (delete h content entity)"
    by (simp add: delete_components(1)[OF True])
  from invariants_noReferenceTo[OF inv e] inv e show ?thesis by simp
next
  case False
  then have "delete h content entity = content" by (simp add: delete_def)
  with invariants_noReferenceTo[OF assms False] assms False show ?thesis by simp
qed

lemma exampleSwitchContent_ok:
  "assertCorrect exampleSwitchContent" "representationOk exampleSwitchContent"
proof -
  show "assertCorrect exampleSwitchContent"
    by (rule assertCorrectI)
       (auto simp: exampleSwitchContent_def getConnectionPointKey_def split: if_splits)
  show "representationOk exampleSwitchContent"
    by (rule representationOkI)
       (auto simp: exampleSwitchContent_def exampleConnection_def split: if_splits)
qed

theorem delete_no_dangling_witness:
  "assertCorrect exampleSwitchContent \<and> representationOk exampleSwitchContent \<and>
   3 \<notin> entities (delete exampleHeap exampleSwitchContent 3) \<and>
   noReferenceTo 3 (delete exampleHeap exampleSwitchContent 3) \<and>
   assertCorrect (delete exampleHeap exampleSwitchContent 3) \<and>
   cableConnections (delete exampleHeap exampleSwitchContent 3) (EntityPoint 1)
     = Some [EntityPoint 2] \<and>
   1 \<notin> entities (delete exampleHeap exampleSwitchContent 1) \<and>
   noReferenceTo 1 (delete exampleHeap exampleSwitchContent 1) \<and>
   circuitConnections (delete exampleHeap exampleSwitchContent 1) 2 = None"
proof -
  note ok = exampleSwitchContent_ok
  have c3: "cableConnections (delete exampleHeap exampleSwitchContent 3) (EntityPoint 1)
     = Some [EntityPoint 2]"
    by (simp add: delete_def Let_def exampleSwitchContent_def removeAllConnections_def
        luaset_delete_def isEmpty_def)
  have c1: "circuitConnections (delete exampleHeap exampleSwitchContent 1) 2 = None"
    by (simp add: delete_def Let_def exampleSwitchContent_def removeAllConnections_def
        luaset_delete_def isEmpty_def)
  from delete_no_dangling[OF ok, of 3 exampleHeap] delete_no_dangling[OF ok, of 1 exampleHeap]
    ok c3 c1
  show ?thesis by simp
qed

section \<open>Deleting an entity, or keeping it as a settings remnant\<close>

lemma anyWithoutWorldEntity_iff:
  "anyWithoutWorldEntity E h stage connections =
     (\<exists>otherEntity conns. (otherEntity, conns) \<in> set connections \<and>
         getWorldEntity E (h otherEntity) stage = None)"
  by (induction connections) (auto split: if_splits)

lemma entities_delete: "entities (delete h content entity) = entities content - {entity}"
  by (auto simp: delete_def Let_def split: option.splits)

lemma byPosition_delete:
  assumes "entity \<in> entities content"
  shows "byPosition (delete h content entity) =
     (byPosition content)
       (position (h entity) := removeAll entity (byPosition content (position (h entity))))"
  using assms by (auto simp: delete_def Let_def map2d_delete_def split: option.splits)

lemma removeFromOthers_None:
  "m k = None \<Longrightarrow> removeFromOthers del key others m k = None"
proof (induction others arbitrary: m)
  case Nil
  then show ?case by simp
next
  case (Cons otherKey rest)
  show ?case
  proof (cases "m otherKey")
    case None
    with Cons show ?thesis by simp
  next
    case (Some d)
    with Cons.prems have ne: "otherKey \<noteq> k" by auto
    from Some ne Cons.prems show ?thesis
      by (simp add: Let_def Cons.IH)
  qed
qed

lemma removeAllConnections_None:
  "m k = None \<Longrightarrow> removeAllConnections keysOf del key m k = None"
  by (simp add: removeAllConnections_def removeFromOthers_None split: option.splits)

lemma removeAllConnections_key: "removeAllConnections keysOf del key m key = None"
  by (simp add: removeAllConnections_def removeFromOthers_None split: option.splits)

lemma cable_fold_None:
  "cable k = None \<Longrightarrow>
   fold (\<lambda>(cid, point) cable. removeAllConnections (\<lambda>d. d) luaset_delete point cable)
     pts cable k = None"
  by (induction pts arbitrary: cable) (auto simp: removeAllConnections_None)

lemma delete_own_entries:
  assumes mem: "entity \<in> entities content"
  shows "circuitConnections (delete h content entity) entity = None"
    and "cableConnections (delete h content entity) (EntityPoint entity) = None"
    and "extraCableConnectionPoints (delete h content entity) entity = None"
proof -
  note comp = delete_components[OF mem, of h]
  show "circuitConnections (delete h content entity) entity = None"
    unfolding comp(2) by (rule removeAllConnections_key)
  show "cableConnections (delete h content entity) (EntityPoint entity) = None"
    unfolding comp(4) by (rule cable_fold_None) (rule removeAllConnections_key)
  show "extraCableConnectionPoints (delete h content entity) entity = None"
    unfolding comp(3) by simp
qed

lemma delete_noReferenceTo:
  assumes ac: "assertCorrect content" and ro: "representationOk content"
  shows "noReferenceTo entity (delete h content entity)"
proof (cases "entity \<in> entities content")
  case True
  note inv = delete_invariants[OF ac ro True, of h]
  have e: "entity \<notin> entities (delete h content entity)"
    by (simp add: entities_delete)
  from invariants_noReferenceTo[OF inv e] show ?thesis .
next
  case False
  then have "delete h content entity = content" by (simp add: delete_def)
  with invariants_noReferenceTo[OF ac ro False] show ?thesis by simp
qed

text \<open>
  C9, amended. \<open>deleteEntityOrCreateSettingsRemnant\<close> sets \<open>isSettingsRemnant\<close>, keeps the
  store as it is and calls \<open>makeSettingsRemnant\<close> exactly when the entity has a stage
  diff, or the circuit index holds, under the entity, an entry for an entity (which may
  be the entity itself) that has no rendered instance at the first stage of the entity;
  the cable graph is not read.  In every other case it calls \<open>delete\<close> of the store and
  then \<open>deleteWorldEntities\<close>, and leaves the entity itself unchanged.  After \<open>delete\<close> the
  entity is not in the set of entities, and for an entity that was in it: the bucket
  of its position no longer holds it, and the circuit index, the cable graph and the
  key registry have no entry under it.  In a store that satisfies the assertions of
  \<open>_assertCorrect\<close> and the facts about the representation, no entry of either graph or
  of the key registry refers to the entity afterwards, and every other entity keeps its
  circuit connections to the entities other than the deleted one.
\<close>

theorem deleteEntityOrCreateSettingsRemnant_spec:
  "(hasStageDiff E (h entity) \<or>
    (\<exists>connections otherEntity conns.
        getCircuitConnections content entity = Some connections \<and>
        (otherEntity, conns) \<in> set connections \<and>
        getWorldEntity E (h otherEntity) (firstStage (h entity)) = None)
    \<longrightarrow> deleteEntityOrCreateSettingsRemnant E h content entity =
          (h(entity := (h entity)\<lparr>isSettingsRemnant := True\<rparr>), content,
           [MakeSettingsRemnant entity])) \<and>
   (\<not> (hasStageDiff E (h entity) \<or>
       (\<exists>connections otherEntity conns.
           getCircuitConnections content entity = Some connections \<and>
           (otherEntity, conns) \<in> set connections \<and>
           getWorldEntity E (h otherEntity) (firstStage (h entity)) = None))
    \<longrightarrow> deleteEntityOrCreateSettingsRemnant E h content entity =
          (h, delete h content entity, [DeleteWorldEntities entity]) \<and>
        entity \<notin> entities (delete h content entity) \<and>
        entities (delete h content entity) = entities content - {entity} \<and>
        (entity \<in> entities content \<longrightarrow>
           byPosition (delete h content entity) =
             (byPosition content)
               (position (h entity) :=
                  removeAll entity (byPosition content (position (h entity)))) \<and>
           circuitConnections (delete h content entity) entity = None \<and>
           cableConnections (delete h content entity) (EntityPoint entity) = None \<and>
           extraCableConnectionPoints (delete h content entity) entity = None) \<and>
        (assertCorrect content \<and> representationOk content \<longrightarrow>
           noReferenceTo entity (delete h content entity)) \<and>
        (entity \<in> entities content \<and> assertCorrect content \<and> representationOk content \<longrightarrow>
           (\<forall>k. k \<noteq> entity \<longrightarrow>
              circuitConnections (delete h content entity) k =
                (case circuitConnections content k of
                   None \<Rightarrow> None
                 | Some m \<Rightarrow> if entity \<in> set (map fst m) \<and> AList.delete entity m = [] then None
                            else Some (AList.delete entity m)))))"
proof -
  have s: "shouldMakeSettingsRemnant E h content entity =
    (hasStageDiff E (h entity) \<or>
    (\<exists>connections otherEntity conns.
        getCircuitConnections content entity = Some connections \<and>
        (otherEntity, conns) \<in> set connections \<and>
        getWorldEntity E (h otherEntity) (firstStage (h entity)) = None))"
    by (auto simp: shouldMakeSettingsRemnant_def anyWithoutWorldEntity_iff split: option.splits)
  have own: "entity \<in> entities content \<longrightarrow>
           byPosition (delete h content entity) =
             (byPosition content)
               (position (h entity) :=
                  removeAll entity (byPosition content (position (h entity)))) \<and>
           circuitConnections (delete h content entity) entity = None \<and>
           cableConnections (delete h content entity) (EntityPoint entity) = None \<and>
           extraCableConnectionPoints (delete h content entity) entity = None"
    using byPosition_delete[of entity content h] delete_own_entries[of entity content h]
    by (intro impI conjI)
  have nr: "assertCorrect content \<and> representationOk content \<longrightarrow>
           noReferenceTo entity (delete h content entity)"
    using delete_noReferenceTo[of content entity h] by (intro impI) (elim conjE)
  have fr: "entity \<in> entities content \<and> assertCorrect content \<and> representationOk content \<longrightarrow>
           (\<forall>k. k \<noteq> entity \<longrightarrow>
              circuitConnections (delete h content entity) k =
                (case circuitConnections content k of
                   None \<Rightarrow> None
                 | Some m \<Rightarrow> if entity \<in> set (map fst m) \<and> AList.delete entity m = [] then None
                            else Some (AList.delete entity m)))"
  proof (intro impI allI, elim conjE)
    fix k
    assume mem: "entity \<in> entities content" and ac: "assertCorrect content"
      and ro: "representationOk content" and k: "k \<noteq> entity"
    show "circuitConnections (delete h content entity) k =
                (case circuitConnections content k of
                   None \<Rightarrow> None
                 | Some m \<Rightarrow> if entity \<in> set (map fst m) \<and> AList.delete entity m = [] then None
                            else Some (AList.delete entity m))"
      unfolding delete_components(2)[OF mem] circuit_remove_apply[OF ac ro] using k by simp
  qed
  have del: "entity \<notin> entities (delete h content entity) \<and>
        entities (delete h content entity) = entities content - {entity}"
    by (simp add: entities_delete)
  show ?thesis
  proof (rule conjI; rule impI)
    assume "hasStageDiff E (h entity) \<or>
      (\<exists>connections otherEntity conns.
        getCircuitConnections content entity = Some connections \<and>
        (otherEntity, conns) \<in> set connections \<and>
        getWorldEntity E (h otherEntity) (firstStage (h entity)) = None)"
    then show "deleteEntityOrCreateSettingsRemnant E h content entity =
          (h(entity := (h entity)\<lparr>isSettingsRemnant := True\<rparr>), content,
           [MakeSettingsRemnant entity])"
      unfolding s[symmetric] by (simp add: deleteEntityOrCreateSettingsRemnant_def)
  next
    assume "\<not> (hasStageDiff E (h entity) \<or>
       (\<exists>connections otherEntity conns.
           getCircuitConnections content entity = Some connections \<and>
           (otherEntity, conns) \<in> set connections \<and>
           getWorldEntity E (h otherEntity) (firstStage (h entity)) = None))"
    then have "\<not> shouldMakeSettingsRemnant E h content entity" unfolding s .
    then have r: "deleteEntityOrCreateSettingsRemnant E h content entity =
          (h, delete h content entity, [DeleteWorldEntities entity])"
      by (simp add: deleteEntityOrCreateSettingsRemnant_def)
    show "deleteEntityOrCreateSettingsRemnant E h content entity =
          (h, delete h content entity, [DeleteWorldEntities entity]) \<and>
        entity \<notin> entities (delete h content entity) \<and>
        entities (delete h content entity) = entities content - {entity} \<and>
        (entity \<in> entities content \<longrightarrow>
           byPosition (delete h content entity) =
             (byPosition content)
               (position (h entity) :=
                  removeAll entity (byPosition content (position (h entity)))) \<and>
           circuitConnections (delete h content entity) entity = None \<and>
           cableConnections (delete h content entity) (EntityPoint entity) = None \<and>
           extraCableConnectionPoints (delete h content entity) entity = None) \<and>
        (assertCorrect content \<and> representationOk content \<longrightarrow>
           noReferenceTo entity (delete h content entity)) \<and>
        (entity \<in> entities content \<and> assertCorrect content \<and> representationOk content \<longrightarrow>
           (\<forall>k. k \<noteq> entity \<longrightarrow>
              circuitConnections (delete h content entity) k =
                (case circuitConnections content k of
                   None \<Rightarrow> None
                 | Some m \<Rightarrow> if entity \<in> set (map fst m) \<and> AList.delete entity m = [] then None
                            else Some (AList.delete entity m))))"
      by (rule conjI[OF r conjI[OF del[THEN conjunct1] conjI[OF del[THEN conjunct2]
            conjI[OF own conjI[OF nr fr]]]]])
  qed
qed

lemma exampleContentConnected_invariants:
  "assertCorrect exampleContentConnected" "representationOk exampleContentConnected"
proof -
  show "assertCorrect exampleContentConnected"
    by (rule assertCorrectI)
       (auto simp: exampleContentConnected_def exampleContent_def getConnectionPointKey_def
          split: if_splits)
  show "representationOk exampleContentConnected"
    by (rule representationOkI)
       (auto simp: exampleContentConnected_def exampleContent_def exampleConnection_def
          split: if_splits)
qed

text \<open>
  Entity 1 of the example store with the green wire to entity 2: a settings remnant while
  entity 2 is not rendered, deleted once it is; after the deletion entity 2 has no
  circuit connection left and the bucket of the position holds the entities 2 and 3.
\<close>

theorem deleteEntityOrCreateSettingsRemnant_spec_witness:
  "getCircuitConnections exampleContentConnected 1 = Some [(2, [exampleConnection])] \<and>
   \<not> hasStageDiff exampleEnv (exampleHeap 1) \<and>
   getWorldEntity exampleEnv (exampleHeap 2) (firstStage (exampleHeap 1)) = None \<and>
   deleteEntityOrCreateSettingsRemnant exampleEnv exampleHeap exampleContentConnected 1 =
     (exampleHeap(1 := (exampleHeap 1)\<lparr>isSettingsRemnant := True\<rparr>), exampleContentConnected,
      [MakeSettingsRemnant 1]) \<and>
   getWorldEntity exampleEnv (exampleHeapRendered 2) (firstStage (exampleHeapRendered 1)) \<noteq> None \<and>
   deleteEntityOrCreateSettingsRemnant exampleEnv exampleHeapRendered exampleContentConnected 1 =
     (exampleHeapRendered, delete exampleHeapRendered exampleContentConnected 1,
      [DeleteWorldEntities 1]) \<and>
   entities (delete exampleHeapRendered exampleContentConnected 1) = {2, 3} \<and>
   byPosition (delete exampleHeapRendered exampleContentConnected 1) (0, 0) = [2, 3] \<and>
   circuitConnections (delete exampleHeapRendered exampleContentConnected 1) 1 = None \<and>
   circuitConnections (delete exampleHeapRendered exampleContentConnected 1) 2 = None \<and>
   noReferenceTo 1 (delete exampleHeapRendered exampleContentConnected 1)"
proof -
  let ?c' = "delete exampleHeapRendered exampleContentConnected 1"
  have a: "getCircuitConnections exampleContentConnected 1 = Some [(2, [exampleConnection])]"
    by (simp add: getCircuitConnections_def exampleContentConnected_def)
  have b: "\<not> hasStageDiff exampleEnv (exampleHeap 1)"
      "\<not> hasStageDiff exampleEnv (exampleHeapRendered 1)"
    by (simp_all add: exampleEnv_def exampleHeap_def exampleHeapRendered_def exampleEntity_def)
  have c: "getWorldEntity exampleEnv (exampleHeap 2) (firstStage (exampleHeap 1)) = None"
    by (simp add: exampleEnv_def exampleHeap_def exampleEntity_def)
  have d: "getWorldEntity exampleEnv (exampleHeapRendered 2) (firstStage (exampleHeapRendered 1))
             \<noteq> None"
    by (simp add: exampleEnv_def exampleHeapRendered_def)
  have m: "1 \<in> entities exampleContentConnected"
      "entities exampleContentConnected - {1} = {2, 3}"
      "position (exampleHeapRendered 1) = (0, 0)"
      "byPosition exampleContentConnected (0, 0) = [1, 2, 3]"
      "circuitConnections exampleContentConnected 2 = Some [(1, [exampleConnection])]"
    by (auto simp: exampleContentConnected_def exampleContent_def exampleHeapRendered_def
        exampleHeap_def exampleEntity_def)
  note inv = exampleContentConnected_invariants
  from deleteEntityOrCreateSettingsRemnant_spec[of exampleEnv exampleHeap 1 exampleContentConnected]
    a c
  have 1: "deleteEntityOrCreateSettingsRemnant exampleEnv exampleHeap exampleContentConnected 1 =
     (exampleHeap(1 := (exampleHeap 1)\<lparr>isSettingsRemnant := True\<rparr>), exampleContentConnected,
      [MakeSettingsRemnant 1])"
    by fastforce
  have n: "\<not> (hasStageDiff exampleEnv (exampleHeapRendered 1) \<or>
       (\<exists>connections otherEntity conns.
           getCircuitConnections exampleContentConnected 1 = Some connections \<and>
           (otherEntity, conns) \<in> set connections \<and>
           getWorldEntity exampleEnv (exampleHeapRendered otherEntity)
             (firstStage (exampleHeapRendered 1)) = None))"
    using a b(2) d by auto
  note t = deleteEntityOrCreateSettingsRemnant_spec[of exampleEnv exampleHeapRendered 1
      exampleContentConnected, THEN conjunct2, rule_format, OF n]
  from t have 2: "deleteEntityOrCreateSettingsRemnant exampleEnv exampleHeapRendered
      exampleContentConnected 1 = (exampleHeapRendered, ?c', [DeleteWorldEntities 1])"
    by (rule conjunct1)
  from t m(2) have 3: "entities ?c' = {2, 3}" by simp
  from t m(1) have "byPosition ?c' =
      (byPosition exampleContentConnected)
        (position (exampleHeapRendered 1) :=
           removeAll 1 (byPosition exampleContentConnected (position (exampleHeapRendered 1))))"
    by blast
  then have 4: "byPosition ?c' (0, 0) = [2, 3]" unfolding m(3) by (simp add: m(4))
  from t m(1) have 5: "circuitConnections ?c' 1 = None" by blast
  from t m(1) inv have "\<forall>k. k \<noteq> 1 \<longrightarrow>
      circuitConnections ?c' k =
        (case circuitConnections exampleContentConnected k of
           None \<Rightarrow> None
         | Some m \<Rightarrow> if 1 \<in> set (map fst m) \<and> AList.delete 1 m = [] then None
                    else Some (AList.delete 1 m))"
    by blast
  then have 6: "circuitConnections ?c' 2 = None" by (simp add: m(5))
  from t inv have 7: "noReferenceTo 1 ?c'" by blast
  from a b(1) c 1 d 2 3 4 5 6 7 show ?thesis by (intro conjI)
qed

text \<open>
  C9, as the claim states it, fails for a cable connection: entity 1 of the example store
  with cables has a cable to entity 2, which has no rendered instance at the first stage
  of entity 1; entity 1 has no stage diff and is deleted, not kept as a settings
  remnant.
\<close>

theorem deleteEntityOrCreateSettingsRemnant_spec_counterexample:
  "getCableConnections exampleCableContent (EntityPoint 1)
     = Some [EntityPoint 2, EntityPoint 3, EntityPoint 4, EntityPoint 5, EntityPoint 6] \<and>
   getWorldEntity exampleEnv (exampleHeap 2) (firstStage (exampleHeap 1)) = None \<and>
   deleteEntityOrCreateSettingsRemnant exampleEnv exampleHeap exampleCableContent 1
     = (exampleHeap, delete exampleHeap exampleCableContent 1, [DeleteWorldEntities 1]) \<and>
   1 \<notin> entities (delete exampleHeap exampleCableContent 1) \<and>
   \<not> isSettingsRemnant (exampleHeap 1)"
  by (simp add: getCableConnections_def getConnectionPointKey_def exampleCableContent_def
      exampleEnv_def exampleHeap_def exampleEntity_def deleteEntityOrCreateSettingsRemnant_def
      shouldMakeSettingsRemnant_def getCircuitConnections_def entities_delete)

section \<open>Moving the first stage of an entity\<close>





section \<open>Rotation away from the first stage\<close>

text \<open>
  C3, amended. A rotation is observed when the target direction is given and differs from
  the stored direction and, for an entity that is not an underground belt, the rendered
  instance is not one that can be in any direction.
  \<^item> For an entity that is not an underground belt, a rotation observed at a stage other
    than the first stage makes \<open>handleUpdate\<close> return \<open>CannotRotate\<close>; the heap is
    unchanged and the one world call is \<open>refreshWorldEntityAtStage\<close>.
  \<^item> For an underground belt, a rotation observed at a stage that is the first stage of
    neither the entity nor its pair makes \<open>doUndergroundBeltUpdate\<close> return
    \<open>CannotRotate\<close>; the heap is unchanged and the one world call is \<open>resetUnderground\<close>.
  \<^item> When the rendered instance agrees with the stored direction and name but the pair
    does not have that direction, the rendered instance is flipped back, with the same
    result and an unchanged heap.
  \<^item> \<open>handleUpdate\<close> on an underground belt returns the result and the heap of
    \<open>doUndergroundBeltUpdate\<close>, and only appends world calls.
  \<^item> For an entity that is not an underground belt and a rendered instance that can be
    in any direction, \<open>handleUpdate\<close> does what it does without a target direction; when
    the call carries no upgrade and reads no value, it returns \<open>NoChange\<close>, the heap is
    unchanged and no world call is made.
\<close>

theorem rotation_not_at_first_stage:
  "(\<not> isUndergroundBelt E (h entity) \<and>
    targetDirection \<noteq> None \<and> targetDirection \<noteq> direction (h entity) \<and>
    \<not> canBeAnyDirection E entitySource \<and>
    stage \<noteq> firstStage (h entity)
    \<longrightarrow> handleUpdate E h content entity entitySource stage targetDirection targetUpgrade
          getBpValue knownBpValue
        = Inr (CannotRotate, h, [RefreshWorldEntityAtStage entity stage])) \<and>
   (targetDirection \<noteq> None \<and> targetDirection \<noteq> direction (h entity) \<and>
    stage \<noteq> firstStage (h entity) \<and>
    (\<forall>p. pair = Some p \<longrightarrow> firstStage (h p) \<noteq> stage)
    \<longrightarrow> doUndergroundBeltUpdate E h content entity worldEntity pair stage targetDirection upgrade
        = (CannotRotate, h, [ResetUnderground entity stage])) \<and>
   (targetDirection = Some td \<and> direction (h entity) = Some td \<and>
    upgrade = getNameAtStage E (h entity) stage \<and>
    pair = Some p \<and> direction (h p) \<noteq> Some td \<and>
    stage \<noteq> firstStage (h entity) \<and> firstStage (h p) \<noteq> stage
    \<longrightarrow> doUndergroundBeltUpdate E h content entity worldEntity pair stage targetDirection upgrade
        = (CannotRotate, h, [ForceFlipUnderground worldEntity])) \<and>
   (isUndergroundBelt E (h entity)
    \<longrightarrow> (\<exists>highlights.
          handleUpdate E h content entity entitySource stage targetDirection targetUpgrade
            getBpValue knownBpValue
          = Inr (fst (doUndergroundBeltUpdate E h content entity entitySource
                        (findUndergroundPair E h content entity stage) stage targetDirection
                        (case targetUpgrade of
                           Some u \<Rightarrow> u
                         | None \<Rightarrow> (case knownBpValue of Some v \<Rightarrow> name v
                                                     | None \<Rightarrow> le_name entitySource))),
                 fst (snd (doUndergroundBeltUpdate E h content entity entitySource
                        (findUndergroundPair E h content entity stage) stage targetDirection
                        (case targetUpgrade of
                           Some u \<Rightarrow> u
                         | None \<Rightarrow> (case knownBpValue of Some v \<Rightarrow> name v
                                                     | None \<Rightarrow> le_name entitySource)))),
                 snd (snd (doUndergroundBeltUpdate E h content entity entitySource
                        (findUndergroundPair E h content entity stage) stage targetDirection
                        (case targetUpgrade of
                           Some u \<Rightarrow> u
                         | None \<Rightarrow> (case knownBpValue of Some v \<Rightarrow> name v
                                                     | None \<Rightarrow> le_name entitySource))))
                 @ highlights))) \<and>
   (\<not> isUndergroundBelt E (h entity) \<and> canBeAnyDirection E entitySource
    \<longrightarrow> handleUpdate E h content entity entitySource stage targetDirection targetUpgrade
          getBpValue knownBpValue
        = handleUpdate E h content entity entitySource stage None targetUpgrade
            getBpValue knownBpValue) \<and>
   (\<not> isUndergroundBelt E (h entity) \<and> canBeAnyDirection E entitySource \<and>
    targetUpgrade = None \<and> \<not> getBpValue
    \<longrightarrow> handleUpdate E h content entity entitySource stage targetDirection targetUpgrade
          getBpValue knownBpValue
        = Inr (NoChange, h, []))"
proof (intro conjI impI)
  assume "\<not> isUndergroundBelt E (h entity) \<and>
    targetDirection \<noteq> None \<and> targetDirection \<noteq> direction (h entity) \<and>
    \<not> canBeAnyDirection E entitySource \<and>
    stage \<noteq> firstStage (h entity)"
  then show "handleUpdate E h content entity entitySource stage targetDirection targetUpgrade
          getBpValue knownBpValue
        = Inr (CannotRotate, h, [RefreshWorldEntityAtStage entity stage])"
    by (simp add: handleUpdate_def)
next
  assume "targetDirection \<noteq> None \<and> targetDirection \<noteq> direction (h entity) \<and>
    stage \<noteq> firstStage (h entity) \<and>
    (\<forall>p. pair = Some p \<longrightarrow> firstStage (h p) \<noteq> stage)"
  then show "doUndergroundBeltUpdate E h content entity worldEntity pair stage targetDirection upgrade
        = (CannotRotate, h, [ResetUnderground entity stage])"
    by (cases pair) (simp_all add: doUndergroundBeltUpdate_def Let_def)
next
  assume "targetDirection = Some td \<and> direction (h entity) = Some td \<and>
    upgrade = getNameAtStage E (h entity) stage \<and>
    pair = Some p \<and> direction (h p) \<noteq> Some td \<and>
    stage \<noteq> firstStage (h entity) \<and> firstStage (h p) \<noteq> stage"
  then show "doUndergroundBeltUpdate E h content entity worldEntity pair stage targetDirection upgrade
        = (CannotRotate, h, [ForceFlipUnderground worldEntity])"
    by (auto simp: doUndergroundBeltUpdate_def handleUndergroundFlippedBack_def Let_def
        split: option.splits)
next
  assume "isUndergroundBelt E (h entity)"
  then show "\<exists>highlights.
          handleUpdate E h content entity entitySource stage targetDirection targetUpgrade
            getBpValue knownBpValue
          = Inr (fst (doUndergroundBeltUpdate E h content entity entitySource
                        (findUndergroundPair E h content entity stage) stage targetDirection
                        (case targetUpgrade of
                           Some u \<Rightarrow> u
                         | None \<Rightarrow> (case knownBpValue of Some v \<Rightarrow> name v
                                                     | None \<Rightarrow> le_name entitySource))),
                 fst (snd (doUndergroundBeltUpdate E h content entity entitySource
                        (findUndergroundPair E h content entity stage) stage targetDirection
                        (case targetUpgrade of
                           Some u \<Rightarrow> u
                         | None \<Rightarrow> (case knownBpValue of Some v \<Rightarrow> name v
                                                     | None \<Rightarrow> le_name entitySource)))),
                 snd (snd (doUndergroundBeltUpdate E h content entity entitySource
                        (findUndergroundPair E h content entity stage) stage targetDirection
                        (case targetUpgrade of
                           Some u \<Rightarrow> u
                         | None \<Rightarrow> (case knownBpValue of Some v \<Rightarrow> name v
                                                     | None \<Rightarrow> le_name entitySource))))
                 @ highlights)"
    by (simp add: handleUpdate_def handleUndergroundBeltUpdate_def Let_def split: prod.splits)
next
  assume "\<not> isUndergroundBelt E (h entity) \<and> canBeAnyDirection E entitySource"
  then show "handleUpdate E h content entity entitySource stage targetDirection targetUpgrade
          getBpValue knownBpValue
        = handleUpdate E h content entity entitySource stage None targetUpgrade
            getBpValue knownBpValue"
    by (simp add: handleUpdate_def)
next
  assume "\<not> isUndergroundBelt E (h entity) \<and> canBeAnyDirection E entitySource \<and>
    targetUpgrade = None \<and> \<not> getBpValue"
  then show "handleUpdate E h content entity entitySource stage targetDirection targetUpgrade
          getBpValue knownBpValue
        = Inr (NoChange, h, [])"
    by (simp add: handleUpdate_def)
qed


text \<open>
  The first three parts at a fast transport belt rotated at stage 3 (first stage 2) and at
  the underground belt 1 at stage 3 (first stages 1 and 2), and the last part at an
  assembling machine.
\<close>

theorem rotation_not_at_first_stage_witness:
  "handleUpdate exampleEnv exampleHeap exampleContent 3
       (exampleLuaEntity ''fast-transport-belt'' ''transport-belt'' 2) 3 (Some 2) None False None
     = Inr (CannotRotate, exampleHeap, [RefreshWorldEntityAtStage 3 3]) \<and>
   doUndergroundBeltUpdate exampleEnv exampleUndergroundHeap exampleContent 1 exampleUpgradeOrder
       (Some 2) 3 (Some 2) ''underground-belt''
     = (CannotRotate, exampleUndergroundHeap, [ResetUnderground 1 3]) \<and>
   doUndergroundBeltUpdate exampleEnv
       (exampleUndergroundHeap(2 := (exampleUndergroundHeap 2)\<lparr>direction := Some 2\<rparr>))
       exampleContent 1 exampleUpgradeOrder (Some 2) 3 (Some 6) ''underground-belt''
     = (CannotRotate, exampleUndergroundHeap(2 := (exampleUndergroundHeap 2)\<lparr>direction := Some 2\<rparr>),
        [ForceFlipUnderground exampleUpgradeOrder]) \<and>
   handleUpdate exampleMachineEnv exampleMachineHeap exampleContent 1
       (exampleLuaEntity ''assembling-machine-1'' ''assembling-machine'' 2) 2 (Some 2) None False None
     = Inr (NoChange, exampleMachineHeap, [])"
proof -
  let ?h2 = "exampleUndergroundHeap(2 := (exampleUndergroundHeap 2)\<lparr>direction := Some 2\<rparr>)"
  have a: "\<not> isUndergroundBelt exampleEnv (exampleHeap 3)"
      "Some (2::nat) \<noteq> direction (exampleHeap 3)"
      "\<not> canBeAnyDirection exampleEnv (exampleLuaEntity ''fast-transport-belt'' ''transport-belt'' 2)"
      "(3::nat) \<noteq> firstStage (exampleHeap 3)"
    by (simp_all add: exampleEnv_def exampleHeap_def exampleEntity_def exampleType_def)
  have b: "Some (2::nat) \<noteq> direction (exampleUndergroundHeap 1)"
      "(3::nat) \<noteq> firstStage (exampleUndergroundHeap 1)"
      "firstStage (exampleUndergroundHeap 2) \<noteq> 3"
    by (simp_all add: exampleUndergroundHeap_def exampleUnderground_def exampleEntity_def)
  have c: "direction (?h2 1) = Some 6"
      "''underground-belt'' = getNameAtStage exampleEnv (?h2 1) 3"
      "direction (?h2 2) \<noteq> Some 6"
      "(3::nat) \<noteq> firstStage (?h2 1)" "firstStage (?h2 2) \<noteq> 3"
    by (simp_all add: exampleUndergroundHeap_def exampleUnderground_def exampleEntity_def
        exampleEnv_def specGetNameAtStage_def)
  note t = rotation_not_at_first_stage
  have 1: "handleUpdate exampleEnv exampleHeap exampleContent 3
       (exampleLuaEntity ''fast-transport-belt'' ''transport-belt'' 2) 3 (Some 2) None False None
     = Inr (CannotRotate, exampleHeap, [RefreshWorldEntityAtStage 3 3])"
    using t[where E=exampleEnv and h=exampleHeap and entity=3 and stage=3
        and targetDirection="Some 2"
        and entitySource="exampleLuaEntity ''fast-transport-belt'' ''transport-belt'' 2"] a
    by simp
  have 2: "doUndergroundBeltUpdate exampleEnv exampleUndergroundHeap exampleContent 1
       exampleUpgradeOrder (Some 2) 3 (Some 2) ''underground-belt''
     = (CannotRotate, exampleUndergroundHeap, [ResetUnderground 1 3])"
    using t[where E=exampleEnv and h=exampleUndergroundHeap and entity=1 and stage=3
        and targetDirection="Some 2" and pair="Some 2"] b
    by simp
  have 3: "doUndergroundBeltUpdate exampleEnv ?h2
       exampleContent 1 exampleUpgradeOrder (Some 2) 3 (Some 6) ''underground-belt''
     = (CannotRotate, ?h2, [ForceFlipUnderground exampleUpgradeOrder])"
    using t[where E=exampleEnv and h="?h2" and entity=1 and stage=3
        and targetDirection="Some 6" and pair="Some 2" and p=2 and td=6
        and upgrade="''underground-belt''"] c
    by simp
  have d: "\<not> isUndergroundBelt exampleMachineEnv (exampleMachineHeap 1)"
      "canBeAnyDirection exampleMachineEnv
         (exampleLuaEntity ''assembling-machine-1'' ''assembling-machine'' 2)"
    by (simp_all add: exampleMachineEnv_def exampleEnv_def exampleMachineHeap_def
        exampleEntity_def exampleType_def exampleLuaEntity_def)
  have 4: "handleUpdate exampleMachineEnv exampleMachineHeap exampleContent 1
       (exampleLuaEntity ''assembling-machine-1'' ''assembling-machine'' 2) 2 (Some 2) None False None
     = Inr (NoChange, exampleMachineHeap, [])"
    using t[where E=exampleMachineEnv and h=exampleMachineHeap and entity=1 and stage=2
        and targetDirection="Some 2" and targetUpgrade=None and getBpValue=False
        and content=exampleContent and knownBpValue=None
        and entitySource="exampleLuaEntity ''assembling-machine-1'' ''assembling-machine'' 2"] d
    by blast
  from 1 2 3 4 show ?thesis by (intro conjI)
qed

text \<open>
  C3, as the claim states it, fails for an instance that can be in any direction: an
  assembling machine with first stage 1 whose rendered instance at stage 2 has a
  direction other than the stored one.
  \<open>tryRotateEntityFromWorld\<close> returns \<open>NoChange\<close>, and the rendered instance is not reverted.
\<close>

theorem rotation_not_at_first_stage_counterexample:
  "getWorldEntity exampleMachineEnv (exampleMachineHeap 1) 2
     = Some (exampleLuaEntity ''assembling-machine-1'' ''assembling-machine'' 2) \<and>
   Some (le_direction (exampleLuaEntity ''assembling-machine-1'' ''assembling-machine'' 2))
     \<noteq> direction (exampleMachineHeap 1) \<and>
   firstStage (exampleMachineHeap 1) = 1 \<and>
   tryRotateEntityFromWorld exampleMachineEnv exampleMachineHeap exampleContent 1 2
     = Inr (NoChange, exampleMachineHeap, [])"
  by (simp add: tryRotateEntityFromWorld_def handleUpdate_def exampleMachineEnv_def exampleEnv_def
      exampleMachineHeap_def exampleEntity_def exampleLuaEntity_def exampleType_def)

section \<open>Upgrade of an underground belt whose pair changes\<close>

lemma exampleUnderground_fields:
  "firstStage (exampleUnderground n t f) = f"
  "stageDiffs (exampleUnderground n t f) = []"
  "name (firstValue (exampleUnderground n t f)) = n"
  "direction (exampleUnderground n t f) = Some 6"
  by (simp_all add: exampleUnderground_def exampleEntity_def)

lemma exampleUndergroundHeap_fields:
  "firstStage (exampleUndergroundHeap (Suc 0)) = Suc 0"
  "firstStage (exampleUndergroundHeap 2) = 2"
  "stageDiffs (exampleUndergroundHeap (Suc 0)) = []"
  "stageDiffs (exampleUndergroundHeap 2) = []"
  "name (firstValue (exampleUndergroundHeap (Suc 0))) = ''underground-belt''"
  "name (firstValue (exampleUndergroundHeap 2)) = ''underground-belt''"
  "direction (exampleUndergroundHeap (Suc 0)) = Some 6"
  by (simp_all add: exampleUndergroundHeap_def exampleUnderground_fields)

lemma exampleEnv_fields:
  "getNameAtStage exampleEnv = specGetNameAtStage"
  "applyUpgradeAtStage exampleEnv = specApplyUpgradeAtStage"
  "findUndergroundPair exampleEnv = exampleFindUndergroundPair"
  "neighbours exampleEnv = (\<lambda>e. None)"
  "getWorldEntity exampleEnv = worldEntities"
  by (simp_all add: exampleEnv_def)

lemma exampleUnderground_upgrade:
  "doUndergroundBeltUpdate exampleEnv exampleUndergroundHeap exampleContent 1 exampleUpgradeOrder
     (Some 2) 2 None ''fast-underground-belt''
   = (CannotUpgradeChangedPair,
      exampleUndergroundHeap
        (1 := (exampleUndergroundHeap 1)
           \<lparr>firstValue := (firstValue (exampleUndergroundHeap 1))\<lparr>name := ''fast-underground-belt''\<rparr>,
            stageDiffs := [(2, [(''name'', Value ''underground-belt'')])]\<rparr>),
      [RefreshWorldEntityAtStage 1 2, RefreshWorldEntityAtStage 2 2])"
proof -
  let ?H = exampleUndergroundHeap
  let ?fast = "''fast-underground-belt''"
  let ?plain = "''underground-belt''"
  let ?e1 = "(?H 1)\<lparr>firstValue := (firstValue (?H 1))\<lparr>name := ?fast\<rparr>\<rparr>"
  let ?e2 = "(?H 2)\<lparr>firstValue := (firstValue (?H 2))\<lparr>name := ?fast\<rparr>\<rparr>"
  let ?e1' = "(?H 1)\<lparr>firstValue := (firstValue (?H 1))\<lparr>name := ?fast\<rparr>,
            stageDiffs := [(2, [(''name'', Value ?plain)])]\<rparr>"
  note f = exampleUndergroundHeap_fields exampleEnv_fields
  have old: "specGetNameAtStage (?H 1) 2 = ?plain"
    by (simp add: specGetNameAtStage_def f)
  have hu: "applyUpgradeAt exampleEnv ?H 1 1 ?fast = ?H(1 := ?e1)"
    by (simp add: applyUpgradeAt_def specApplyUpgradeAtStage_def specGetNameAtStage_def f)
  have hv: "applyUpgradeAtPair exampleEnv (?H(1 := ?e1)) (Some 2) 2 ?fast = ?H(1 := ?e1, 2 := ?e2)"
    by (simp add: applyUpgradeAtPair_def applyUpgradeAt_def specApplyUpgradeAtStage_def
        specGetNameAtStage_def f)
  have np: "exampleFindUndergroundPair (?H(1 := ?e1, 2 := ?e2)) exampleContent 1 2 = Some 3"
    by (simp add: exampleFindUndergroundPair_def specGetNameAtStage_def f)
  have hw: "applyUpgradeAt exampleEnv (?H(1 := ?e1, 2 := ?e2)) 1 2 ?plain
      = ?H(1 := ?e1', 2 := ?e2)"
    by (simp add: applyUpgradeAt_def specApplyUpgradeAtStage_def specGetNameAtStage_def f
        fun_eq_iff)
  have e2: "?e2\<lparr>firstValue := (firstValue ?e2)\<lparr>name := ?plain\<rparr>\<rparr> = ?H 2"
    by (simp add: exampleUndergroundHeap_def exampleUnderground_def)
  have hx: "applyUpgradeAtPair exampleEnv (?H(1 := ?e1', 2 := ?e2)) (Some 2) 2 ?plain
      = ?H(1 := ?e1')"
    unfolding applyUpgradeAtPair_def applyUpgradeAt_def
    by (simp add: specApplyUpgradeAtStage_def specGetNameAtStage_def f e2 fun_eq_iff)
  note g = old hu hv np hw hx
  show ?thesis
    unfolding doUndergroundBeltUpdate_def Let_def
    by (simp add: f g[unfolded One_nat_def])
qed


text \<open>
  C4. An upgrade that is applied at one stage and undone at another: underground belt 1
  (first stage 1) and its pair 2 (first stage 2), with an order seen at stage 2 to
  upgrade entity 1 to a fast underground belt, after which the pair of entity 1 is
  entity 3.  \<open>tryUpgradeEntityFromWorld\<close> returns
  \<open>CannotUpgradeChangedPair\<close>.  The upgrade was applied to entity 1 at its first stage 1
  and is undone at stage 2: the first value of entity 1 keeps the name of the upgrade and
  a stage diff at stage 2 carries the old name.  Entity 2 is as it was.
\<close>

theorem doUndergroundBeltUpdate_rollback_stage:
  "findUndergroundPair exampleEnv exampleUndergroundHeap exampleContent 1 2 = Some 2 \<and>
   name (firstValue (exampleUndergroundHeap 1)) = ''underground-belt'' \<and>
   stageDiffs (exampleUndergroundHeap 1) = [] \<and>
   tryUpgradeEntityFromWorld exampleEnv exampleUndergroundHeap exampleContent 1 2
   = Inr (CannotUpgradeChangedPair,
      exampleUndergroundHeap
        (1 := (exampleUndergroundHeap 1)
           \<lparr>firstValue := (firstValue (exampleUndergroundHeap 1))\<lparr>name := ''fast-underground-belt''\<rparr>,
            stageDiffs := [(2, [(''name'', Value ''underground-belt'')])]\<rparr>),
      [RefreshWorldEntityAtStage 1 2, RefreshWorldEntityAtStage 2 2])"
proof -
  note f = exampleUndergroundHeap_fields exampleEnv_fields
  have p: "exampleFindUndergroundPair exampleUndergroundHeap exampleContent (Suc 0) 2 = Some 2"
    by (simp add: exampleFindUndergroundPair_def specGetNameAtStage_def f)
  have w: "worldEntities (exampleUndergroundHeap (Suc 0)) 2 = Some exampleUpgradeOrder"
    "isUndergroundBelt exampleEnv (exampleUndergroundHeap (Suc 0))"
    "upgrade_target exampleUpgradeOrder = Some ''fast-underground-belt''"
    "upgrade_direction exampleUpgradeOrder = None"
    by (simp_all add: exampleEnv_def exampleUndergroundHeap_def exampleUnderground_def
        exampleEntity_def exampleType_def exampleUpgradeOrder_def exampleLuaEntity_def)
  have t: "tryUpgradeEntityFromWorld exampleEnv exampleUndergroundHeap exampleContent 1 2
   = Inr (CannotUpgradeChangedPair,
      exampleUndergroundHeap
        (1 := (exampleUndergroundHeap 1)
           \<lparr>firstValue := (firstValue (exampleUndergroundHeap 1))\<lparr>name := ''fast-underground-belt''\<rparr>,
            stageDiffs := [(2, [(''name'', Value ''underground-belt'')])]\<rparr>),
      [RefreshWorldEntityAtStage 1 2, RefreshWorldEntityAtStage 2 2])"
    unfolding tryUpgradeEntityFromWorld_def handleUpdate_def handleUndergroundBeltUpdate_def Let_def
    by (simp add: f w p exampleUnderground_upgrade[unfolded One_nat_def])
  from p f t show ?thesis by simp
qed

end
